theory Spec2Isabelle
  imports Complex_Main "HOL-Library.Multiset"
begin

section \<open>Python values, info dictionaries and errors\<close>

text \<open>
  The values that the environment wrappers put into a per-instance info dictionary are
  booleans (the truncation flag), numbers (episode length, episode time) and sequences of
  numbers (the per-agent episode reward). Numbers are modelled as exact reals: the
  rounding of 64-bit floats is outside this model.
\<close>

datatype pyval = PyBool bool | PyNum real | PySeq "real list"

text \<open>A Python \<open>dict\<close> with string keys, as an association list in insertion order.\<close>

type_synonym info = "(string \<times> pyval) list"

datatype error = KeyError | IndexError | ValueError | ZeroDivisionError

text \<open>\<open>key in d\<close>\<close>

definition has_key :: "info \<Rightarrow> string \<Rightarrow> bool" where
  "has_key d key = (map_of d key \<noteq> None)"

text \<open>\<open>d.get(key, default)\<close>\<close>

definition dict_get :: "info \<Rightarrow> string \<Rightarrow> pyval \<Rightarrow> pyval" where
  "dict_get d key dflt = (case map_of d key of None \<Rightarrow> dflt | Some v \<Rightarrow> v)"

text \<open>Python truth value of a value, as \<open>if v\<close> tests it.\<close>

fun truthy :: "pyval \<Rightarrow> bool" where
  "truthy (PyBool b) = b"
| "truthy (PyNum x) = (x \<noteq> 0)"
| "truthy (PySeq xs) = (xs \<noteq> [])"

text \<open>\<open>np.array(v).sum()\<close>\<close>

fun np_sum :: "pyval \<Rightarrow> real" where
  "np_sum (PyBool b) = (if b then 1 else 0)"
| "np_sum (PyNum x) = x"
| "np_sum (PySeq xs) = sum_list xs"

text \<open>
  \<open>np.mean(xs)\<close>. On the empty list numpy returns \<open>nan\<close>; \<open>squash_info\<close> below
  never calls it there (lemma \<open>squash_info_mean_nonempty\<close>).
\<close>

definition np_mean :: "real list \<Rightarrow> real" where
  "np_mean xs = sum_list xs / real (length xs)"

section \<open>The metrics aggregator \<open>_squash_info\<close>\<close>

definition truncated_key :: string where
  "truncated_key = ''TimeLimit.truncated''"

text \<open>
  \<^verbatim>\<open>
  def _squash_info(info):
      info = [i for i in info if i]
      new_info = {}
      keys = set([k for i in info for k in i.keys()])
      keys.discard("TimeLimit.truncated")
      for key in keys:
          mean = np.mean([np.array(d[key]).sum() for d in info if key in d])
          new_info[key] = mean
      return new_info
  \<close>
  The set of keys is a duplicate-free list; the order in which Python visits a set does
  not matter for the dictionary that results, since every key is assigned once.
\<close>

definition squash_keys :: "info list \<Rightarrow> string list" where
  "squash_keys info = removeAll truncated_key (remdups (concat (map (map fst) info)))"

definition squash_mean :: "info list \<Rightarrow> string \<Rightarrow> real" where
  "squash_mean info key =
     np_mean (map (\<lambda>d. np_sum (the (map_of d key))) (filter (\<lambda>d. has_key d key) info))"

definition squash_info :: "info list \<Rightarrow> (string \<rightharpoonup> real)" where
  "squash_info info0 =
     (let info = filter (\<lambda>i. i \<noteq> []) info0;
          keys = squash_keys info
      in fold (\<lambda>key new_info. new_info(key \<mapsto> squash_mean info key)) keys Map.empty)"

section \<open>Strings and paths\<close>

text \<open>\<open>str(n)\<close> for the integers that f-strings put into directory and metric names.\<close>

definition digit_char :: "nat \<Rightarrow> char" where
  "digit_char d = ''0123456789'' ! d"

fun str_nat :: "nat \<Rightarrow> string" where
  "str_nat n = (if n < 10 then [digit_char n] else str_nat (n div 10) @ [digit_char (n mod 10)])"

declare str_nat.simps [simp del]

definition str_int :: "int \<Rightarrow> string" where
  "str_int j = (if j < 0 then ''-'' @ str_nat (nat (- j)) else str_nat (nat j))"

text \<open>\<open>os.path.join(a, b)\<close> on POSIX paths.\<close>

definition path_join :: "string \<Rightarrow> string \<Rightarrow> string" where
  "path_join a b =
     (if b \<noteq> [] \<and> hd b = CHR ''/'' then b
      else if a = [] \<or> last a = CHR ''/'' then a @ b
      else a @ ''/'' @ b)"

section \<open>Configuration\<close>

text \<open>
  The module-level \<open>config\<close> dictionary. \<open>eval_dir\<close>, \<open>loss_dir\<close> and \<open>save_dir\<close>
  stand for the strings after \<open>format(id=run.id)\<close> and \<open>expanduser\<close>; the intervals may
  be \<open>None\<close>. \<open>num_env_steps\<close> is the value of \<open>int(config["num_env_steps"])\<close>.
\<close>

record config =
  num_env_steps :: int
  eval_dir :: string
  loss_dir :: string
  save_dir :: string
  log_interval :: int
  save_interval :: "int option"
  eval_interval :: "int option"
  episodes_per_eval :: nat

text \<open>
  The entries of the dictionary \<open>algorithm\<close> that \<open>train.py\<close> reads; the dictionary
  itself is defined in module \<open>a2c\<close> and is a parameter here.
\<close>

record algorithm =
  num_steps :: nat
  num_envs :: nat

text \<open>
  The values that \<open>train.py\<close> gives the dictionary (\<open>int(5e7)\<close>, \<open>int(1e6)\<close>), for the
  run identifier \<open>run_id\<close>.
\<close>

definition source_config :: "string \<Rightarrow> config" where
  "source_config run_id =
     \<lparr>num_env_steps = 50000000,
      eval_dir = ''./results/video/'' @ run_id,
      loss_dir = ''./results/loss/'' @ run_id,
      save_dir = ''./results/trained_models/'' @ run_id,
      log_interval = 100,
      save_interval = Some 1000000,
      eval_interval = Some 1000000,
      episodes_per_eval = 8\<rparr>"

section \<open>Agents, collaborators and events\<close>

text \<open>
  The arguments of one call of \<open>storage.insert\<close>. Tensors other than the two mask
  columns are of an abstract type \<open>'t\<close>; a mask column (one row per environment
  instance) is the list of its entries.
\<close>

record 't transition =
  tr_obs :: 't
  tr_recurrent_hidden_states :: 't
  tr_action :: 't
  tr_action_log_prob :: 't
  tr_value :: 't
  tr_reward :: 't
  tr_masks :: "real list"
  tr_bad_masks :: "real list"

text \<open>
  An \<open>A2C\<close> object as \<open>train.py\<close> uses it: \<open>agent.agent_id\<close>, \<open>agent.model\<close> and
  \<open>agent.storage\<close>. The list \<open>agents\<close> is the store of these objects: position \<open>i\<close> is the
  address of agent \<open>i\<close> and of its storage.
\<close>

record ('pm, 'st) agent =
  agent_id :: nat
  model :: 'pm
  storage :: 'st

text \<open>
  Classes and functions that \<open>train.py\<close> imports from modules which are not part of it
  (\<open>envs.make_vec_envs\<close>, \<open>a2c.A2C\<close>, the policy model, the rollout storage,
  \<open>glob.glob\<close> and the file name that \<open>shutil.make_archive\<close> returns) are parameters. Every call is assumed to return. A method that receives
  object references may change those objects, so \<open>update_store\<close> gives the content of
  each storage of the list handed to \<open>update\<close> after the call.
\<close>

record ('env, 't, 'pm, 'st) collab =
  make_vec_envs :: "nat \<Rightarrow> string option \<Rightarrow> 'env"
  num_agents :: "'env \<Rightarrow> nat"
  new_model :: "'env \<Rightarrow> nat \<Rightarrow> 'pm"
  new_storage :: "'env \<Rightarrow> nat \<Rightarrow> 'st"
  env_reset :: "'env \<Rightarrow> 'env \<times> 't list"
  env_step :: "'env \<Rightarrow> 't list \<Rightarrow> 'env \<times> 't list \<times> 't \<times> bool list \<times> info list"
  reward_col :: "'t \<Rightarrow> nat \<Rightarrow> 't"
  act :: "'pm \<Rightarrow> 't \<Rightarrow> 't \<Rightarrow> real list \<Rightarrow> 't \<times> 't \<times> 't \<times> 't"
  hidden_zeros :: "nat \<Rightarrow> 'pm \<Rightarrow> 't"
  st_obs :: "'st \<Rightarrow> nat \<Rightarrow> 't"
  st_recurrent_hidden_states :: "'st \<Rightarrow> nat \<Rightarrow> 't"
  st_masks :: "'st \<Rightarrow> nat \<Rightarrow> real list"
  st_seed :: "'st \<Rightarrow> 't \<Rightarrow> 'st"
  st_insert :: "'st \<Rightarrow> 't transition \<Rightarrow> 'st"
  st_after_update :: "'st \<Rightarrow> 'st"
  compute_returns :: "('pm, 'st) agent \<Rightarrow> 'st"
  update_model :: "('pm, 'st) agent \<Rightarrow> 'st list \<Rightarrow> 'pm"
  update_store :: "('pm, 'st) agent \<Rightarrow> 'st list \<Rightarrow> nat \<Rightarrow> 'st"
  update_loss :: "('pm, 'st) agent \<Rightarrow> 'st list \<Rightarrow> (string \<times> real) list"
  make_archive :: "string \<Rightarrow> string \<Rightarrow> string \<Rightarrow> string \<Rightarrow> string"
  glob_mp4 :: "string \<Rightarrow> string list"

text \<open>The two vectorized environments: \<open>envs\<close> of \<open>main\<close> and \<open>eval_envs\<close> of \<open>evaluate\<close>.\<close>

datatype env_ref = Envs | EvalEnvs

text \<open>
  The calls to collaborators and to the outside world, in the order in which they are
  made. The frames-per-second figure of the progress line is read off the wall clock
  and is not part of \<open>LogUpdates\<close>.
\<close>

datatype ('t, 'pm, 'st) event =
    MakeVecEnvs env_ref nat "string option"
  | EnvReset env_ref
  | EnvStep env_ref "'t list"
  | EnvClose env_ref
  | Act nat 't 't "real list"
  | Insert nat "'t transition"
  | ComputeReturns nat
  | Update nat "'st list"
  | AddScalar string real int
  | AfterUpdate nat
  | LogUpdates int int
  | LogReward nat real
  | WandbLog "string \<rightharpoonup> real"
  | Makedirs string
  | AgentSave nat 'pm string
  | MakeArchive string string string string
  | Rmtree string
  | LogArtifact string "string option"
  | LogEval nat real

text \<open>Kinds of calls.\<close>

fun is_env_step :: "('t, 'pm, 'st) event \<Rightarrow> bool" where
  "is_env_step (EnvStep r a) = True"
| "is_env_step e = False"

fun is_rollout_event :: "('t, 'pm, 'st) event \<Rightarrow> bool" where
  "is_rollout_event (Act i ob h m) = True"
| "is_rollout_event (EnvStep r a) = True"
| "is_rollout_event (Insert i tr) = True"
| "is_rollout_event e = False"

fun is_update_call :: "('t, 'pm, 'st) event \<Rightarrow> bool" where
  "is_update_call (Update i storages) = True"
| "is_update_call e = False"

fun is_add_scalar :: "('t, 'pm, 'st) event \<Rightarrow> bool" where
  "is_add_scalar (AddScalar k v j) = True"
| "is_add_scalar e = False"

text \<open>The local variables of \<open>main\<close> that live across update cycles, and the calls made so far.\<close>

record ('env, 't, 'pm, 'st) state =
  envs :: 'env
  agents :: "('pm, 'st) agent list"
  all_infos :: "info list"
  environment_steps :: int
  trace :: "('t, 'pm, 'st) event list"

section \<open>Python control flow\<close>

text \<open>\<open>xs[i]\<close> for \<open>i \<ge> 0\<close>\<close>

definition index :: "'a list \<Rightarrow> nat \<Rightarrow> error + 'a" where
  "index xs i = (if i < length xs then Inr (xs ! i) else Inl IndexError)"

text \<open>A \<open>for\<close> loop whose body may raise.\<close>

fun for_each :: "('a \<Rightarrow> 's \<Rightarrow> error + 's) \<Rightarrow> 'a list \<Rightarrow> 's \<Rightarrow> error + 's" where
  "for_each body [] s = Inr s"
| "for_each body (x # xs) s =
     (case body x s of Inl e \<Rightarrow> Inl e | Inr s' \<Rightarrow> for_each body xs s')"

text \<open>A list comprehension whose element expression may raise.\<close>

fun comprehension :: "('a \<Rightarrow> error + 'b) \<Rightarrow> 'a list \<Rightarrow> error + 'b list" where
  "comprehension f [] = Inr []"
| "comprehension f (x # xs) =
     (case f x of Inl e \<Rightarrow> Inl e
      | Inr y \<Rightarrow> (case comprehension f xs of Inl e \<Rightarrow> Inl e | Inr ys \<Rightarrow> Inr (y # ys)))"

text \<open>\<open>deque(maxlen=10).append(x)\<close>: a full window drops its oldest entry.\<close>

definition deque_append :: "'a \<Rightarrow> 'a list \<Rightarrow> 'a list" where
  "deque_append x q = (if length q < 10 then q @ [x] else tl q @ [x])"

section \<open>The rollout step of \<open>main\<close>\<close>

text \<open>
  \<^verbatim>\<open>
  n_value, n_action, n_action_log_prob, n_recurrent_hidden_states = zip(
      *[agent.model.act(agent.storage.obs[step],
                        agent.storage.recurrent_hidden_states[step],
                        agent.storage.masks[step])
        for agent in agents])
  \<close>
\<close>

definition act_outputs ::
  "('env, 't, 'pm, 'st) collab \<Rightarrow> nat \<Rightarrow> ('pm, 'st) agent list \<Rightarrow> ('t \<times> 't \<times> 't \<times> 't) list" where
  "act_outputs ops step ags =
     map (\<lambda>a. act ops (model a) (st_obs ops (storage a) step)
                (st_recurrent_hidden_states ops (storage a) step)
                (st_masks ops (storage a) step)) ags"

definition act_events ::
  "('env, 't, 'pm, 'st) collab \<Rightarrow> nat \<Rightarrow> ('pm, 'st) agent list \<Rightarrow> ('t, 'pm, 'st) event list" where
  "act_events ops step ags =
     map (\<lambda>a. Act (agent_id a) (st_obs ops (storage a) step)
                (st_recurrent_hidden_states ops (storage a) step)
                (st_masks ops (storage a) step)) ags"

text \<open>
  \<^verbatim>\<open>masks = torch.FloatTensor([[0.0] if done_ else [1.0] for done_ in done])\<close>
\<close>

definition masks_of :: "bool list \<Rightarrow> real list" where
  "masks_of done = map (\<lambda>d. if d then 0 else 1) done"

text \<open>
  \<^verbatim>\<open>
  bad_masks = torch.FloatTensor(
      [[0.0] if info.get("TimeLimit.truncated", False) else [1.0] for info in infos])
  \<close>
\<close>

definition bad_masks_of :: "info list \<Rightarrow> real list" where
  "bad_masks_of infos =
     map (\<lambda>info. if truthy (dict_get info truncated_key (PyBool False)) then 0 else 1) infos"

text \<open>
  The arguments of \<open>agents[i].storage.insert(obs[i], n_recurrent_hidden_states[i],
  n_action[i], n_action_log_prob[i], n_value[i], reward[:, i].unsqueeze(1), masks,
  bad_masks)\<close>, from the \<open>i\<close>-th output of \<open>act\<close>.
\<close>

definition insert_args ::
  "('env, 't, 'pm, 'st) collab \<Rightarrow> 't \<Rightarrow> ('t \<times> 't \<times> 't \<times> 't) \<Rightarrow> 't \<Rightarrow>
   real list \<Rightarrow> real list \<Rightarrow> nat \<Rightarrow> 't transition" where
  "insert_args ops obs_i out reward masks bad_masks i =
     (case out of (value, action, action_log_prob, rhs) \<Rightarrow>
        \<lparr>tr_obs = obs_i, tr_recurrent_hidden_states = rhs, tr_action = action,
         tr_action_log_prob = action_log_prob, tr_value = value,
         tr_reward = reward_col ops reward i,
         tr_masks = masks, tr_bad_masks = bad_masks\<rparr>)"

text \<open>
  One round of the loop \<open>for i in range(len(agents))\<close> around \<open>storage.insert\<close>;
  \<open>obs[i]\<close> raises when the environment returned fewer observations than there are
  agents.
\<close>

definition insert_agent ::
  "('env, 't, 'pm, 'st) collab \<Rightarrow> 't list \<Rightarrow> ('t \<times> 't \<times> 't \<times> 't) list \<Rightarrow> 't \<Rightarrow>
   real list \<Rightarrow> real list \<Rightarrow> nat \<Rightarrow> ('env, 't, 'pm, 'st) state \<Rightarrow> error + ('env, 't, 'pm, 'st) state" where
  "insert_agent ops obs outs reward masks bad_masks i s =
     (case index obs i of
        Inl e \<Rightarrow> Inl e
      | Inr obs_i \<Rightarrow>
          (let a = agents s ! i;
               tr = insert_args ops obs_i (outs ! i) reward masks bad_masks i
           in Inr (s\<lparr>agents := (agents s)[i := a\<lparr>storage := st_insert ops (storage a) tr\<rparr>],
                    trace := trace s @ [Insert (agent_id a) tr]\<rparr>)))"

text \<open>
  One round of \<open>for step in range(algorithm["num_steps"])\<close>. Unpacking \<open>zip(*[])\<close>
  into four names raises \<open>ValueError\<close> when there is no agent.
\<close>

definition rollout_step ::
  "('env, 't, 'pm, 'st) collab \<Rightarrow> nat \<Rightarrow> ('env, 't, 'pm, 'st) state \<Rightarrow> error + ('env, 't, 'pm, 'st) state" where
  "rollout_step ops step s =
     (let outs = act_outputs ops step (agents s) in
      if outs = [] then Inl ValueError
      else
        (case env_step ops (envs s) (map (\<lambda>(value, action, lp, rhs). action) outs) of
           (envs', obs, reward, done, infos) \<Rightarrow>
             (case for_each (insert_agent ops obs outs reward (masks_of done) (bad_masks_of infos))
                     [0..<length (agents s)]
                     (s\<lparr>envs := envs',
                        trace := trace s @ act_events ops step (agents s) @
                                 [EnvStep Envs (map (\<lambda>(value, action, lp, rhs). action) outs)]\<rparr>) of
                Inl e \<Rightarrow> Inl e
              | Inr s1 \<Rightarrow>
                  Inr (s1\<lparr>all_infos := fold deque_append (filter (\<lambda>info. info \<noteq> []) infos)
                                           (all_infos s1)\<rparr>))))"

text \<open>
  Names for what one rollout step computes from state \<open>s\<close>: the joint action, the parts
  of the tuple that \<open>envs.step(n_action)\<close> returns, and the transition handed to the
  storage of agent \<open>i\<close>.
\<close>

definition step_actions ::
  "('env, 't, 'pm, 'st) collab \<Rightarrow> nat \<Rightarrow> ('env, 't, 'pm, 'st) state \<Rightarrow> 't list" where
  "step_actions ops step s = map (\<lambda>(value, action, lp, rhs). action) (act_outputs ops step (agents s))"

definition step_obs ::
  "('env, 't, 'pm, 'st) collab \<Rightarrow> nat \<Rightarrow> ('env, 't, 'pm, 'st) state \<Rightarrow> 't list" where
  "step_obs ops step s =
     (case env_step ops (envs s) (step_actions ops step s) of (envs', obs, reward, done, infos) \<Rightarrow> obs)"

definition step_reward ::
  "('env, 't, 'pm, 'st) collab \<Rightarrow> nat \<Rightarrow> ('env, 't, 'pm, 'st) state \<Rightarrow> 't" where
  "step_reward ops step s =
     (case env_step ops (envs s) (step_actions ops step s) of (envs', obs, reward, done, infos) \<Rightarrow> reward)"

definition step_done ::
  "('env, 't, 'pm, 'st) collab \<Rightarrow> nat \<Rightarrow> ('env, 't, 'pm, 'st) state \<Rightarrow> bool list" where
  "step_done ops step s =
     (case env_step ops (envs s) (step_actions ops step s) of (envs', obs, reward, done, infos) \<Rightarrow> done)"

definition step_infos ::
  "('env, 't, 'pm, 'st) collab \<Rightarrow> nat \<Rightarrow> ('env, 't, 'pm, 'st) state \<Rightarrow> info list" where
  "step_infos ops step s =
     (case env_step ops (envs s) (step_actions ops step s) of (envs', obs, reward, done, infos) \<Rightarrow> infos)"

definition step_transition ::
  "('env, 't, 'pm, 'st) collab \<Rightarrow> nat \<Rightarrow> ('env, 't, 'pm, 'st) state \<Rightarrow> nat \<Rightarrow> 't transition" where
  "step_transition ops step s i =
     insert_args ops (step_obs ops step s ! i) (act_outputs ops step (agents s) ! i)
       (step_reward ops step s) (masks_of (step_done ops step s))
       (bad_masks_of (step_infos ops step s)) i"

text \<open>
  How an environment instance reports the end of an episode: the time-limit wrapper sets
  \<open>done\<close> and puts a true \<open>"TimeLimit.truncated"\<close> into the info dictionary when it cuts
  an episode off; an episode that ends by itself sets \<open>done\<close> only.
\<close>

definition truncation_flag :: "info \<Rightarrow> bool" where
  "truncation_flag info = truthy (dict_get info ''TimeLimit.truncated'' (PyBool False))"

definition natural_termination :: "bool \<Rightarrow> info \<Rightarrow> bool" where
  "natural_termination done info = (done \<and> \<not> truncation_flag info)"

definition rollout ::
  "('env, 't, 'pm, 'st) collab \<Rightarrow> nat \<Rightarrow> ('env, 't, 'pm, 'st) state \<Rightarrow> error + ('env, 't, 'pm, 'st) state" where
  "rollout ops n s = for_each (rollout_step ops) [0..<n] s"

section \<open>Returns, shared-experience update and storage reset\<close>

text \<open>
  The loops \<open>for agent in agents\<close> visit the agent objects in list order; an object is
  named by its position, and what the loop body changes is written back there.
  \<^verbatim>\<open>
  for agent in agents:
      agent.compute_returns()
  \<close>
\<close>

definition compute_returns_agent ::
  "('env, 't, 'pm, 'st) collab \<Rightarrow> nat \<Rightarrow> ('env, 't, 'pm, 'st) state \<Rightarrow> ('env, 't, 'pm, 'st) state" where
  "compute_returns_agent ops i s =
     (let a = agents s ! i
      in s\<lparr>agents := (agents s)[i := a\<lparr>storage := compute_returns ops a\<rparr>],
           trace := trace s @ [ComputeReturns (agent_id a)]\<rparr>)"

definition compute_returns_all ::
  "('env, 't, 'pm, 'st) collab \<Rightarrow> ('env, 't, 'pm, 'st) state \<Rightarrow> ('env, 't, 'pm, 'st) state" where
  "compute_returns_all ops s = fold (compute_returns_agent ops) [0..<length (agents s)] s"

text \<open>
  \<^verbatim>\<open>
  for agent in agents:
      loss = agent.update([a.storage for a in agents])
      for k, v in loss.items():
          if writer:
              writer.add_scalar(f"agent{agent.agent_id}/{k}", v, j)
  \<close>
  The list handed to \<open>update\<close> holds references to the storages of all agents, in the
  order of \<open>agents\<close>. \<open>writer\<close> exists when \<open>loss_dir\<close> is a non-empty string.
\<close>

definition update_events ::
  "('env, 't, 'pm, 'st) collab \<Rightarrow> bool \<Rightarrow> int \<Rightarrow> ('pm, 'st) agent \<Rightarrow> 'st list \<Rightarrow>
   ('t, 'pm, 'st) event list" where
  "update_events ops writer j a storages =
     Update (agent_id a) storages #
     (if writer
      then map (\<lambda>(k, v). AddScalar (''agent'' @ str_nat (agent_id a) @ ''/'' @ k) v j)
             (update_loss ops a storages)
      else [])"

definition update_agent ::
  "('env, 't, 'pm, 'st) collab \<Rightarrow> bool \<Rightarrow> int \<Rightarrow> nat \<Rightarrow>
   ('env, 't, 'pm, 'st) state \<Rightarrow> ('env, 't, 'pm, 'st) state" where
  "update_agent ops writer j i s =
     (let ags = agents s;
          a = ags ! i;
          storages = map storage ags;
          ags1 = map (\<lambda>k. (ags ! k)\<lparr>storage := update_store ops a storages k\<rparr>) [0..<length ags];
          ags2 = ags1[i := (ags1 ! i)\<lparr>model := update_model ops a storages\<rparr>]
      in s\<lparr>agents := ags2, trace := trace s @ update_events ops writer j a storages\<rparr>)"

text \<open>The updates of the agents at the positions \<open>order\<close>, one after the other.\<close>

definition update_in_order ::
  "('env, 't, 'pm, 'st) collab \<Rightarrow> bool \<Rightarrow> int \<Rightarrow> nat list \<Rightarrow>
   ('env, 't, 'pm, 'st) state \<Rightarrow> ('env, 't, 'pm, 'st) state" where
  "update_in_order ops writer j order s = fold (update_agent ops writer j) order s"

definition update_all ::
  "('env, 't, 'pm, 'st) collab \<Rightarrow> bool \<Rightarrow> int \<Rightarrow>
   ('env, 't, 'pm, 'st) state \<Rightarrow> ('env, 't, 'pm, 'st) state" where
  "update_all ops writer j s = update_in_order ops writer j [0..<length (agents s)] s"


text \<open>
  \<^verbatim>\<open>
  for agent in agents:
      agent.storage.after_update()
  \<close>
\<close>

definition after_update_agent ::
  "('env, 't, 'pm, 'st) collab \<Rightarrow> nat \<Rightarrow> ('env, 't, 'pm, 'st) state \<Rightarrow> ('env, 't, 'pm, 'st) state" where
  "after_update_agent ops i s =
     (let a = agents s ! i
      in s\<lparr>agents := (agents s)[i := a\<lparr>storage := st_after_update ops (storage a)\<rparr>],
           trace := trace s @ [AfterUpdate (agent_id a)]\<rparr>)"

definition after_update_all ::
  "('env, 't, 'pm, 'st) collab \<Rightarrow> ('env, 't, 'pm, 'st) state \<Rightarrow> ('env, 't, 'pm, 'st) state" where
  "after_update_all ops s = fold (after_update_agent ops) [0..<length (agents s)] s"

text \<open>Lines 196 to 251 of \<open>main\<close>: one update cycle up to the storage reset.\<close>

definition train_phase ::
  "('env, 't, 'pm, 'st) collab \<Rightarrow> config \<Rightarrow> algorithm \<Rightarrow> int \<Rightarrow>
   ('env, 't, 'pm, 'st) state \<Rightarrow> error + ('env, 't, 'pm, 'st) state" where
  "train_phase ops cfg alg j s =
     (case rollout ops (num_steps alg)
             (s\<lparr>environment_steps := environment_steps s + int (num_steps alg) * int (num_envs alg)\<rparr>) of
        Inl e \<Rightarrow> Inl e
      | Inr s1 \<Rightarrow>
          Inr (after_update_all ops
                 (update_all ops (loss_dir cfg \<noteq> []) j (compute_returns_all ops s1))))"

section \<open>Logging, checkpoints and evaluation cadence\<close>

text \<open>
  \<^verbatim>\<open>
  if j % config["log_interval"] == 0 and len(all_infos) > 1:
      squashed = _squash_info(all_infos)
      total_num_steps = (j + 1) * algorithm["num_envs"] * algorithm["num_steps"]
      end = time.time()
      logging.info(f"Updates {j}, num timesteps {total_num_steps}, FPS ...")
      logging.info(f"Last {len(all_infos)} training episodes mean reward "
                   f"{squashed['episode_reward'].sum():.3f}")
      squashed["environment_steps"] = environment_steps
      wandb.log(squashed)
      all_infos.clear()
  \<close>
\<close>

definition log_due :: "config \<Rightarrow> int \<Rightarrow> info list \<Rightarrow> error + bool" where
  "log_due cfg j window =
     (if log_interval cfg = 0 then Inl ZeroDivisionError
      else Inr (j mod log_interval cfg = 0 \<and> length window > 1))"

definition log_phase ::
  "config \<Rightarrow> algorithm \<Rightarrow> int \<Rightarrow> ('env, 't, 'pm, 'st) state \<Rightarrow> error + ('env, 't, 'pm, 'st) state" where
  "log_phase cfg alg j s =
     (case log_due cfg j (all_infos s) of
        Inl e \<Rightarrow> Inl e
      | Inr False \<Rightarrow> Inr s
      | Inr True \<Rightarrow>
          (let squashed = squash_info (all_infos s);
               total_num_steps = (j + 1) * int (num_envs alg) * int (num_steps alg)
           in case squashed ''episode_reward'' of
                None \<Rightarrow> Inl KeyError
              | Some r \<Rightarrow>
                  Inr (s\<lparr>trace := trace s @
                            [LogUpdates j total_num_steps,
                             LogReward (length (all_infos s)) r,
                             WandbLog (squashed(''environment_steps'' \<mapsto> real_of_int (environment_steps s)))],
                         all_infos := []\<rparr>)))"

text \<open>
  \<^verbatim>\<open>
  if config["save_interval"] is not None and (
      j > 0 and j % config["save_interval"] == 0 or j == num_updates):
  \<close>
  and the same test with \<open>eval_interval\<close>.
\<close>

definition cadence_due :: "int option \<Rightarrow> int \<Rightarrow> int \<Rightarrow> error + bool" where
  "cadence_due interval j num_updates =
     (case interval of
        None \<Rightarrow> Inr False
      | Some n \<Rightarrow>
          if j > 0 then (if n = 0 then Inl ZeroDivisionError else Inr (j mod n = 0 \<or> j = num_updates))
          else Inr (j = num_updates))"

text \<open>
  \<^verbatim>\<open>
  cur_save_dir = path.join(save_dir, f"u{j}")
  for agent in agents:
      save_at = path.join(cur_save_dir, f"agent{agent.agent_id}")
      os.makedirs(save_at, exist_ok=True)
      agent.save(save_at)
  archive_name = shutil.make_archive(cur_save_dir, "xztar", save_dir, f"u{j}")
  shutil.rmtree(cur_save_dir)
  run.log_artifact(archive_name)
  \<close>
  What \<open>make_archive\<close> returns depends on the library and on the working directory;
  the program hands it on as it is.
\<close>

definition cur_save_dir :: "config \<Rightarrow> int \<Rightarrow> string" where
  "cur_save_dir cfg j = path_join (save_dir cfg) (''u'' @ str_int j)"

definition save_at :: "config \<Rightarrow> int \<Rightarrow> nat \<Rightarrow> string" where
  "save_at cfg j aid = path_join (cur_save_dir cfg j) (''agent'' @ str_nat aid)"

definition save_agent ::
  "config \<Rightarrow> int \<Rightarrow> ('pm, 'st) agent \<Rightarrow> ('env, 't, 'pm, 'st) state \<Rightarrow> ('env, 't, 'pm, 'st) state" where
  "save_agent cfg j a s =
     s\<lparr>trace := trace s @ [Makedirs (save_at cfg j (agent_id a)),
                           AgentSave (agent_id a) (model a) (save_at cfg j (agent_id a))]\<rparr>"

definition checkpoint ::
  "('env, 't, 'pm, 'st) collab \<Rightarrow> config \<Rightarrow> int \<Rightarrow>
   ('env, 't, 'pm, 'st) state \<Rightarrow> ('env, 't, 'pm, 'st) state" where
  "checkpoint ops cfg j s =
     (let s1 = fold (save_agent cfg j) (agents s) s;
          archive_name = make_archive ops (cur_save_dir cfg j) ''xztar'' (save_dir cfg) (''u'' @ str_int j)
      in s1\<lparr>trace := trace s1 @
                [MakeArchive (cur_save_dir cfg j) ''xztar'' (save_dir cfg) (''u'' @ str_int j),
                 Rmtree (cur_save_dir cfg j),
                 LogArtifact archive_name None]\<rparr>)"

definition save_phase ::
  "('env, 't, 'pm, 'st) collab \<Rightarrow> config \<Rightarrow> int \<Rightarrow> int \<Rightarrow>
   ('env, 't, 'pm, 'st) state \<Rightarrow> error + ('env, 't, 'pm, 'st) state" where
  "save_phase ops cfg num_updates j s =
     (case cadence_due (save_interval cfg) j num_updates of
        Inl e \<Rightarrow> Inl e
      | Inr False \<Rightarrow> Inr s
      | Inr True \<Rightarrow> Inr (checkpoint ops cfg j s))"

section \<open>The evaluation loop \<open>evaluate\<close>\<close>

text \<open>
  The local variables of \<open>evaluate\<close>. \<open>ev_masks\<close> is the variable \<open>masks\<close>, assigned once
  before the loop; \<open>ev_n_masks\<close> is the variable \<open>n_masks\<close>, unbound until the first round
  of the loop assigns it.
\<close>

record ('env, 't, 'pm, 'st) eval_state =
  ev_envs :: 'env
  ev_obs :: "'t list"
  ev_hidden :: "'t list"
  ev_masks :: "real list"
  ev_n_masks :: "real list option"
  ev_infos :: "info list"
  ev_trace :: "('t, 'pm, 'st) event list"

text \<open>
  The body of \<open>while len(all_infos) < episodes_per_eval\<close>:
  \<^verbatim>\<open>
  _, n_action, _, n_recurrent_hidden_states = zip(
      *[agent.model.act(n_obs[agent.agent_id], recurrent_hidden_states, masks)
        for agent, recurrent_hidden_states in zip(agents, n_recurrent_hidden_states)])
  n_obs, _, done, infos = eval_envs.step(n_action)
  n_masks = torch.tensor([[0.0] if done_ else [1.0] for done_ in done], ...)
  all_infos.extend([i for i in infos if i])
  \<close>
\<close>

definition eval_inputs ::
  "('pm, 'st) agent list \<Rightarrow> ('env, 't, 'pm, 'st) eval_state \<Rightarrow> error + (('pm, 'st) agent \<times> 't \<times> 't) list" where
  "eval_inputs ags st =
     comprehension
       (\<lambda>(a, h). case index (ev_obs st) (agent_id a) of Inl e \<Rightarrow> Inl e | Inr ob \<Rightarrow> Inr (a, ob, h))
       (zip ags (ev_hidden st))"

definition eval_step ::
  "('env, 't, 'pm, 'st) collab \<Rightarrow> ('pm, 'st) agent list \<Rightarrow>
   ('env, 't, 'pm, 'st) eval_state \<Rightarrow> error + ('env, 't, 'pm, 'st) eval_state" where
  "eval_step ops ags st =
     (case eval_inputs ags st of
        Inl e \<Rightarrow> Inl e
      | Inr ins \<Rightarrow>
          (let outs = map (\<lambda>(a, ob, h). act ops (model a) ob h (ev_masks st)) ins in
           if outs = [] then Inl ValueError
           else
             (case env_step ops (ev_envs st) (map (\<lambda>(value, action, lp, rhs). action) outs) of
                (envs', obs, reward, done, infos) \<Rightarrow>
                  Inr (st\<lparr>ev_envs := envs',
                          ev_obs := obs,
                          ev_hidden := map (\<lambda>(value, action, lp, rhs). rhs) outs,
                          ev_n_masks := Some (masks_of done),
                          ev_infos := ev_infos st @ filter (\<lambda>i. i \<noteq> []) infos,
                          ev_trace := ev_trace st @
                            map (\<lambda>(a, ob, h). Act (agent_id a) ob h (ev_masks st)) ins @
                            [EnvStep EvalEnvs (map (\<lambda>(value, action, lp, rhs). action) outs)]\<rparr>))))"

text \<open>
  Names for what one round computes from state \<open>st\<close> when no index is out of range:
  the outputs of \<open>act\<close>, one per agent, and the joint action handed to
  \<open>eval_envs.step\<close>.
\<close>

definition eval_outputs ::
  "('env, 't, 'pm, 'st) collab \<Rightarrow> ('pm, 'st) agent list \<Rightarrow>
   ('env, 't, 'pm, 'st) eval_state \<Rightarrow> ('t \<times> 't \<times> 't \<times> 't) list" where
  "eval_outputs ops ags st =
     map (\<lambda>(a, h). act ops (model a) (ev_obs st ! agent_id a) h (ev_masks st))
       (zip ags (ev_hidden st))"

definition eval_actions ::
  "('env, 't, 'pm, 'st) collab \<Rightarrow> ('pm, 'st) agent list \<Rightarrow>
   ('env, 't, 'pm, 'st) eval_state \<Rightarrow> 't list" where
  "eval_actions ops ags st = map (\<lambda>(value, action, lp, rhs). action) (eval_outputs ops ags st)"

text \<open>The \<open>while\<close> loop; it need not terminate.\<close>

partial_function (option) eval_loop ::
  "('env, 't, 'pm, 'st) collab \<Rightarrow> ('pm, 'st) agent list \<Rightarrow> nat \<Rightarrow>
   ('env, 't, 'pm, 'st) eval_state \<Rightarrow> (error + ('env, 't, 'pm, 'st) eval_state) option" where
  "eval_loop ops ags n st =
     (if length (ev_infos st) < n
      then (case eval_step ops ags st of
              Inl e \<Rightarrow> Some (Inl e)
            | Inr st' \<Rightarrow> eval_loop ops ags n st')
      else Some (Inr st))"

text \<open>
  The state of \<open>evaluate\<close> when it enters the loop: a new vectorized environment of
  \<open>episodes_per_eval\<close> instances, reset; zero hidden states; \<open>masks\<close> all zero.
\<close>

definition eval_init ::
  "('env, 't, 'pm, 'st) collab \<Rightarrow> config \<Rightarrow> ('pm, 'st) agent list \<Rightarrow> string \<Rightarrow>
   ('env, 't, 'pm, 'st) eval_state" where
  "eval_init ops cfg ags monitor_dir =
     (case env_reset ops (make_vec_envs ops (episodes_per_eval cfg) (Some monitor_dir)) of
        (envs1, obs) \<Rightarrow>
          \<lparr>ev_envs = envs1,
           ev_obs = obs,
           ev_hidden = map (\<lambda>a. hidden_zeros ops (episodes_per_eval cfg) (model a)) ags,
           ev_masks = replicate (episodes_per_eval cfg) 0,
           ev_n_masks = None,
           ev_infos = [],
           ev_trace = [MakeVecEnvs EvalEnvs (episodes_per_eval cfg) (Some monitor_dir),
                       EnvReset EvalEnvs]\<rparr>)"

text \<open>
  After the loop:
  \<^verbatim>\<open>
  eval_envs.close()
  info = _squash_info(all_infos)
  logging.info(f"Evaluation using {len(all_infos)} episodes: "
               f"mean reward {info['episode_reward']:.5f}\n")
  \<close>
  The result is the list of the calls that \<open>evaluate\<close> made.
\<close>

definition eval_finish ::
  "('env, 't, 'pm, 'st) eval_state \<Rightarrow> error + ('t, 'pm, 'st) event list" where
  "eval_finish st =
     (case squash_info (ev_infos st) ''episode_reward'' of
        None \<Rightarrow> Inl KeyError
      | Some r \<Rightarrow> Inr (ev_trace st @ [EnvClose EvalEnvs, LogEval (length (ev_infos st)) r]))"

definition evaluate ::
  "('env, 't, 'pm, 'st) collab \<Rightarrow> config \<Rightarrow> ('pm, 'st) agent list \<Rightarrow> string \<Rightarrow>
   (error + ('t, 'pm, 'st) event list) option" where
  "evaluate ops cfg ags monitor_dir =
     (case eval_loop ops ags (episodes_per_eval cfg) (eval_init ops cfg ags monitor_dir) of
        None \<Rightarrow> None
      | Some (Inl e) \<Rightarrow> Some (Inl e)
      | Some (Inr st) \<Rightarrow> Some (eval_finish st))"

text \<open>The state after \<open>k\<close> rounds of the loop body, whatever the loop test says.\<close>

fun eval_iter ::
  "('env, 't, 'pm, 'st) collab \<Rightarrow> ('pm, 'st) agent list \<Rightarrow> nat \<Rightarrow>
   ('env, 't, 'pm, 'st) eval_state \<Rightarrow> error + ('env, 't, 'pm, 'st) eval_state" where
  "eval_iter ops ags 0 st = Inr st"
| "eval_iter ops ags (Suc k) st =
     (case eval_step ops ags st of Inl e \<Rightarrow> Inl e | Inr st' \<Rightarrow> eval_iter ops ags k st')"

text \<open>
  \<^verbatim>\<open>
  if config["eval_interval"] is not None and (
      j > 0 and j % config["eval_interval"] == 0 or j == num_updates):
      evaluate(agents, os.path.join(eval_dir, f"u{j}"))
      videos = glob.glob(os.path.join(eval_dir, f"u{j}") + "/*.mp4")
      for i, v in enumerate(videos):
          run.log_artifact(v, f"u{j}.{i}.mp4")
  \<close>
\<close>

definition run_evaluation ::
  "('env, 't, 'pm, 'st) collab \<Rightarrow> config \<Rightarrow> int \<Rightarrow>
   ('env, 't, 'pm, 'st) state \<Rightarrow> (error + ('env, 't, 'pm, 'st) state) option" where
  "run_evaluation ops cfg j s =
     (case evaluate ops cfg (agents s) (path_join (eval_dir cfg) (''u'' @ str_int j)) of
        None \<Rightarrow> None
      | Some (Inl e) \<Rightarrow> Some (Inl e)
      | Some (Inr evs) \<Rightarrow>
          Some (Inr (s\<lparr>trace := trace s @ evs @
              map (\<lambda>(i, v). LogArtifact v (Some (''u'' @ str_int j @ ''.'' @ str_nat i @ ''.mp4'')))
                (enumerate 0 (glob_mp4 ops (path_join (eval_dir cfg) (''u'' @ str_int j) @ ''/*.mp4'')))\<rparr>)))"

definition eval_phase ::
  "('env, 't, 'pm, 'st) collab \<Rightarrow> config \<Rightarrow> int \<Rightarrow> int \<Rightarrow>
   ('env, 't, 'pm, 'st) state \<Rightarrow> (error + ('env, 't, 'pm, 'st) state) option" where
  "eval_phase ops cfg num_updates j s =
     (case cadence_due (eval_interval cfg) j num_updates of
        Inl e \<Rightarrow> Some (Inl e)
      | Inr False \<Rightarrow> Some (Inr s)
      | Inr True \<Rightarrow> run_evaluation ops cfg j s)"

section \<open>The training loop \<open>main\<close>\<close>

text \<open>One round of \<open>for j in range(1, num_updates + 1)\<close>.\<close>

definition cycle ::
  "('env, 't, 'pm, 'st) collab \<Rightarrow> config \<Rightarrow> algorithm \<Rightarrow> int \<Rightarrow> int \<Rightarrow>
   ('env, 't, 'pm, 'st) state \<Rightarrow> (error + ('env, 't, 'pm, 'st) state) option" where
  "cycle ops cfg alg num_updates j s =
     (case train_phase ops cfg alg j s of
        Inl e \<Rightarrow> Some (Inl e)
      | Inr s1 \<Rightarrow>
          (case log_phase cfg alg j s1 of
             Inl e \<Rightarrow> Some (Inl e)
           | Inr s2 \<Rightarrow>
               (case save_phase ops cfg num_updates j s2 of
                  Inl e \<Rightarrow> Some (Inl e)
                | Inr s3 \<Rightarrow> eval_phase ops cfg num_updates j s3)))"

fun run_updates ::
  "('env, 't, 'pm, 'st) collab \<Rightarrow> config \<Rightarrow> algorithm \<Rightarrow> int \<Rightarrow> int list \<Rightarrow>
   ('env, 't, 'pm, 'st) state \<Rightarrow> (error + ('env, 't, 'pm, 'st) state) option" where
  "run_updates ops cfg alg num_updates [] s = Some (Inr s)"
| "run_updates ops cfg alg num_updates (j # js) s =
     (case cycle ops cfg alg num_updates j s of
        None \<Rightarrow> None
      | Some (Inl e) \<Rightarrow> Some (Inl e)
      | Some (Inr s') \<Rightarrow> run_updates ops cfg alg num_updates js s')"

text \<open>
  The agents are built by \<open>A2C(i, osp, asp)\<close> over the enumerated spaces of the
  environment: agent \<open>i\<close> has \<open>agent_id = i\<close>. Then
  \<^verbatim>\<open>
  obs = envs.reset()
  for i in range(len(obs)):
      agents[i].storage.obs[0].copy_(obs[i])
      agents[i].storage.to(algorithm["device"])
  \<close>
  (\<open>to\<close> places buffers and changes no content).
\<close>

definition init_agents ::
  "('env, 't, 'pm, 'st) collab \<Rightarrow> 'env \<Rightarrow> ('pm, 'st) agent list" where
  "init_agents ops e =
     map (\<lambda>i. \<lparr>agent_id = i, model = new_model ops e i, storage = new_storage ops e i\<rparr>)
       [0..<num_agents ops e]"

definition seed_agent ::
  "('env, 't, 'pm, 'st) collab \<Rightarrow> 't list \<Rightarrow> nat \<Rightarrow> ('pm, 'st) agent list \<Rightarrow> error + ('pm, 'st) agent list" where
  "seed_agent ops obs i ags =
     (case index ags i of
        Inl e \<Rightarrow> Inl e
      | Inr a \<Rightarrow> Inr (ags[i := a\<lparr>storage := st_seed ops (storage a) (obs ! i)\<rparr>]))"

text \<open>
  \<open>main\<close>. The set-up of log directories, of the tensorboard writer and of
  \<open>wandb.watch\<close> touches none of the variables below and is left out.
  \<open>num_updates = int(config["num_env_steps"]) // algorithm["num_steps"] // algorithm["num_envs"]\<close>.
\<close>

definition main ::
  "('env, 't, 'pm, 'st) collab \<Rightarrow> config \<Rightarrow> algorithm \<Rightarrow> (error + ('env, 't, 'pm, 'st) state) option" where
  "main ops cfg alg =
     (let envs0 = make_vec_envs ops (num_envs alg) None in
      case env_reset ops envs0 of
        (envs1, obs) \<Rightarrow>
          (case for_each (seed_agent ops obs) [0..<length obs] (init_agents ops envs0) of
             Inl e \<Rightarrow> Some (Inl e)
           | Inr ags \<Rightarrow>
               if num_steps alg = 0 \<or> num_envs alg = 0 then Some (Inl ZeroDivisionError)
               else
                 (let num_updates = num_env_steps cfg div int (num_steps alg) div int (num_envs alg) in
                  case run_updates ops cfg alg num_updates [1..num_updates]
                         \<lparr>envs = envs1, agents = ags, all_infos = [], environment_steps = 0,
                          trace = [MakeVecEnvs Envs (num_envs alg) None, EnvReset Envs]\<rparr> of
                    None \<Rightarrow> None
                  | Some (Inl e) \<Rightarrow> Some (Inl e)
                  | Some (Inr s) \<Rightarrow> Some (Inr (s\<lparr>trace := trace s @ [EnvClose Envs]\<rparr>)))))"

section \<open>Concrete collaborators\<close>

text \<open>
  A small instance of the collaborators, on which the theorems below are run: two agents,
  three environment instances, tensors as integers, a storage as the list of the
  transitions inserted since the last \<open>after_update\<close>. In every step instance 0 is cut
  off by the time limit, instance 1 ends by itself and instance 2 goes on.
\<close>

definition toy_infos :: "info list" where
  "toy_infos =
     [[(''episode_reward'', PySeq [1, 2]), (''TimeLimit.truncated'', PyBool True)],
      [(''episode_reward'', PySeq [3, 5])],
      []]"

definition toy_ops :: "(nat, int, int, int transition list) collab" where
  "toy_ops =
     \<lparr>make_vec_envs = (\<lambda>n dir. 0),
      num_agents = (\<lambda>e. 2),
      new_model = (\<lambda>e i. int i),
      new_storage = (\<lambda>e i. []),
      env_reset = (\<lambda>e. (e, [0, 0])),
      env_step = (\<lambda>e acts. (Suc e, [int e, int e], 1, [True, True, False], toy_infos)),
      reward_col = (\<lambda>r i. r + int i),
      act = (\<lambda>m ob h mk. (ob, m, 0, h + 1)),
      hidden_zeros = (\<lambda>n m. 0),
      st_obs = (\<lambda>st k. 0),
      st_recurrent_hidden_states = (\<lambda>st k. 0),
      st_masks = (\<lambda>st k. [1, 1, 1]),
      st_seed = (\<lambda>st ob. st),
      st_insert = (\<lambda>st tr. st @ [tr]),
      st_after_update = (\<lambda>st. []),
      compute_returns = storage,
      update_model = (\<lambda>a storages. model a + 1),
      update_store = (\<lambda>a storages k. storages ! k),
      update_loss = (\<lambda>a storages. [(''value_loss'', 1)]),
      make_archive = (\<lambda>base_name fmt root_dir base_dir. ''/work/'' @ base_name @ ''.tar.xz''),
      glob_mp4 = (\<lambda>pattern. [])\<rparr>"

definition toy_agents :: "(int, int transition list) agent list" where
  "toy_agents = [\<lparr>agent_id = 0, model = 0, storage = []\<rparr>, \<lparr>agent_id = 1, model = 1, storage = []\<rparr>]"

definition toy_state :: "(nat, int, int, int transition list) state" where
  "toy_state = \<lparr>envs = 0, agents = toy_agents, all_infos = [], environment_steps = 0, trace = []\<rparr>"

definition toy_cfg :: config where
  "toy_cfg =
     \<lparr>num_env_steps = 12, eval_dir = ''ev'', loss_dir = ''loss'', save_dir = ''sv'',
      log_interval = 1, save_interval = Some 2, eval_interval = Some 2, episodes_per_eval = 3\<rparr>"

definition toy_alg :: algorithm where
  "toy_alg = \<lparr>num_steps = 2, num_envs = 3\<rparr>"

text \<open>An info window that holds a single entry.\<close>

definition one_info :: "info list" where
  "one_info = [[(''episode_reward'', PySeq [1, 2])]]"




text \<open>
  Collaborators whose environment shows where it comes from: \<open>make_vec_envs\<close> with \<open>n\<close>
  instances gives environment \<open>10 * n\<close>, a reset moves it on by one and returns the
  observations \<open>[7, 7]\<close>, and the step taken in environment 31 ends no episode.
\<close>

definition probe_ops :: "(nat, int, int, int transition list) collab" where
  "probe_ops =
     toy_ops\<lparr>make_vec_envs := (\<lambda>n dir. 10 * n),
             env_reset := (\<lambda>e. (Suc e, [7, 7])),
             env_step := (\<lambda>e acts. (Suc e, [int e, int e], 1, [True, True, False],
                                      if e = 31 then [[], [], []] else toy_infos))\<rparr>"

text \<open>The same collaborators with an environment in which no episode ever ends.\<close>

definition silent_ops :: "(nat, int, int, int transition list) collab" where
  "silent_ops = toy_ops\<lparr>env_step := (\<lambda>e acts. (Suc e, [int e, int e], 1, [False, False, False], [[], [], []]))\<rparr>"

section \<open>Properties of the metrics aggregator\<close>

lemma fold_map_upd:
  "fold (\<lambda>key m. m(key \<mapsto> f key)) keys m0 k = (if k \<in> set keys then Some (f k) else m0 k)"
  by (induction keys arbitrary: m0) auto

lemma has_key_iff: "has_key d k \<longleftrightarrow> k \<in> fst ` set d"
  by (simp add: has_key_def map_of_eq_None_iff)

lemma has_key_nonempty: "has_key d k \<Longrightarrow> d \<noteq> []"
  by (auto simp: has_key_def)

lemma squash_keys_iff:
  "k \<in> set (squash_keys info) \<longleftrightarrow> k \<noteq> truncated_key \<and> (\<exists>d \<in> set info. has_key d k)"
  by (auto simp: squash_keys_def has_key_iff)

lemma squash_info_apply:
  "squash_info info k =
     (if k \<noteq> truncated_key \<and> (\<exists>d \<in> set info. has_key d k)
      then Some (squash_mean (filter (\<lambda>i. i \<noteq> []) info) k) else None)"
  by (auto simp: squash_info_def Let_def fold_map_upd squash_keys_iff dest: has_key_nonempty)

lemma nonempty_has_key: "(d \<noteq> [] \<and> has_key d k) = has_key d k"
  by (auto dest: has_key_nonempty)

lemma filter_has_key_nonempty:
  "filter (\<lambda>d. has_key d k) (filter (\<lambda>i. i \<noteq> []) info) = filter (\<lambda>d. has_key d k) info"
  by (simp add: nonempty_has_key)

lemma squash_mean_filter:
  "squash_mean (filter (\<lambda>i. i \<noteq> []) info) k = squash_mean info k"
  by (simp add: squash_mean_def nonempty_has_key)

lemma squash_info_mean_nonempty:
  assumes "k \<in> dom (squash_info info)"
  shows "filter (\<lambda>d. has_key d k) (filter (\<lambda>i. i \<noteq> []) info) \<noteq> []"
proof -
  from assms obtain d where "d \<in> set info" "has_key d k"
    by (auto simp: squash_info_apply split: if_splits)
  then have "filter (\<lambda>d. has_key d k) info \<noteq> []"
    by (auto simp: filter_empty_conv)
  then show ?thesis
    by (simp add: nonempty_has_key)
qed

text \<open>
  Claim C2. For every list of info dictionaries, \<open>_squash_info\<close> drops the empty ones,
  takes the keys of the remaining ones except \<open>"TimeLimit.truncated"\<close>, and maps each such
  key to the mean, over exactly the dictionaries that contain the key, of the value summed
  up. \<open>squash([]) = {}\<close>, \<open>squash([{}, {}]) = {}\<close>,
  \<open>squash([{"r": 1}, {"r": 3}]) = {"r": 2.0}\<close>, and the reserved key is never a key of
  the result.
\<close>

theorem squash_info_spec:
  "squash_info info k =
     (if k \<noteq> ''TimeLimit.truncated'' \<and> (\<exists>d \<in> set info. d \<noteq> [] \<and> has_key d k)
      then Some (np_mean (map (\<lambda>d. np_sum (the (map_of d k)))
                   (filter (\<lambda>d. d \<noteq> [] \<and> has_key d k) info)))
      else None) \<and>
   dom (squash_info info) =
     (\<Union>d \<in> set (filter (\<lambda>i. i \<noteq> []) info). fst ` set d) - {''TimeLimit.truncated''} \<and>
   squash_info [] = Map.empty \<and>
   squash_info [[], []] = Map.empty \<and>
   squash_info [[(''r'', PyNum 1)], [(''r'', PyNum 3)]] = [''r'' \<mapsto> 2] \<and>
   ''TimeLimit.truncated'' \<notin> dom (squash_info info)"
proof -
  have apply_eq: "squash_info info k =
     (if k \<noteq> ''TimeLimit.truncated'' \<and> (\<exists>d \<in> set info. d \<noteq> [] \<and> has_key d k)
      then Some (np_mean (map (\<lambda>d. np_sum (the (map_of d k)))
                   (filter (\<lambda>d. d \<noteq> [] \<and> has_key d k) info)))
      else None)" for info k
    unfolding squash_info_apply squash_mean_filter
    by (simp add: nonempty_has_key squash_mean_def truncated_key_def)
  have dom_eq: "dom (squash_info info) =
     (\<Union>d \<in> set (filter (\<lambda>i. i \<noteq> []) info). fst ` set d) - {''TimeLimit.truncated''}"
  proof (rule set_eqI)
    fix x
    have "(\<exists>d \<in> set info. has_key d x) \<longleftrightarrow> (\<exists>d \<in> set info. d \<noteq> [] \<and> x \<in> fst ` set d)"
      using nonempty_has_key [of _ x] by (metis has_key_iff)
    then show "x \<in> dom (squash_info info) \<longleftrightarrow>
      x \<in> (\<Union>d \<in> set (filter (\<lambda>i. i \<noteq> []) info). fst ` set d) - {''TimeLimit.truncated''}"
      by (simp add: dom_def squash_info_apply truncated_key_def) blast
  qed
  have e1: "squash_info [] = Map.empty"
    by (rule ext) (simp add: squash_info_apply)
  have e2: "squash_info [[], []] = Map.empty"
    by (rule ext) (simp add: squash_info_apply has_key_def)
  have e3: "squash_info [[(''r'', PyNum 1)], [(''r'', PyNum 3)]] = [''r'' \<mapsto> 2]"
    by (rule ext)
      (simp add: squash_info_apply squash_mean_def np_mean_def has_key_def truncated_key_def)
  have e4: "''TimeLimit.truncated'' \<notin> dom (squash_info info)"
    by (simp add: dom_eq)
  from apply_eq dom_eq e1 e2 e3 e4 show ?thesis
    by blast
qed

theorem squash_info_spec_witness:
  "squash_info [[], [(''r'', PyNum 1), (''TimeLimit.truncated'', PyBool True)],
                [(''r'', PySeq [1, 2])], [(''s'', PyNum 5)]] ''r'' = Some 2 \<and>
   dom (squash_info [[], [(''r'', PyNum 1), (''TimeLimit.truncated'', PyBool True)],
                [(''r'', PySeq [1, 2])], [(''s'', PyNum 5)]]) = {''r'', ''s''}"
  using squash_info_spec [of "[[], [(''r'', PyNum 1), (''TimeLimit.truncated'', PyBool True)],
                [(''r'', PySeq [1, 2])], [(''s'', PyNum 5)]]" "''r''"]
  by (auto simp: has_key_def np_mean_def)

section \<open>The rollout step\<close>

lemma for_each_append:
  "for_each f (xs @ ys) s = (case for_each f xs s of Inl e \<Rightarrow> Inl e | Inr s' \<Rightarrow> for_each f ys s')"
  by (induction xs arbitrary: s) (auto split: sum.splits)

lemma insert_loop:
  "for_each (insert_agent ops obs outs rw m bm) [0..<n] s = Inr s1 \<Longrightarrow> n \<le> length (agents s) \<Longrightarrow>
    n \<le> length obs \<and> envs s1 = envs s \<and> all_infos s1 = all_infos s \<and>
    environment_steps s1 = environment_steps s \<and>
    length (agents s1) = length (agents s) \<and>
    (\<forall>i < length (agents s). agents s1 ! i =
        (if i < n then (agents s ! i)\<lparr>storage := st_insert ops (storage (agents s ! i))
               (insert_args ops (obs ! i) (outs ! i) rw m bm i)\<rparr> else agents s ! i)) \<and>
    trace s1 = trace s @ map (\<lambda>i. Insert (agent_id (agents s ! i))
               (insert_args ops (obs ! i) (outs ! i) rw m bm i)) [0..<n]"
proof (induction n arbitrary: s1)
  case 0
  then show ?case by simp
next
  case (Suc n)
  from Suc.prems(1) obtain s' where
    s': "for_each (insert_agent ops obs outs rw m bm) [0..<n] s = Inr s'"
    and step: "insert_agent ops obs outs rw m bm n s' = Inr s1"
    by (auto simp: for_each_append split: sum.splits)
  from Suc.prems(2) have "n \<le> length (agents s)" by simp
  note IH = Suc.IH [OF s' this]
  from step have nobs: "n < length obs"
    by (auto simp: insert_agent_def index_def split: if_splits)
  from step nobs have s1: "s1 = s'\<lparr>agents := (agents s')[n := (agents s' ! n)\<lparr>storage :=
        st_insert ops (storage (agents s' ! n)) (insert_args ops (obs ! n) (outs ! n) rw m bm n)\<rparr>],
      trace := trace s' @ [Insert (agent_id (agents s' ! n)) (insert_args ops (obs ! n) (outs ! n) rw m bm n)]\<rparr>"
    by (auto simp: insert_agent_def index_def Let_def)
  from IH Suc.prems(2) have an: "agents s' ! n = agents s ! n" by simp
  show ?case
    using IH nobs Suc.prems(2) an by (auto simp: s1 nth_list_update less_Suc_eq)
qed

text \<open>What a rollout step that returns has done.\<close>

lemma rollout_step_Inr:
  assumes "rollout_step ops step s = Inr s'"
  shows "agents s \<noteq> [] \<and> length (agents s) \<le> length (step_obs ops step s) \<and>
    environment_steps s' = environment_steps s \<and>
    all_infos s' = fold deque_append (filter (\<lambda>info. info \<noteq> []) (step_infos ops step s)) (all_infos s) \<and>
    length (agents s') = length (agents s) \<and>
    (\<forall>i < length (agents s). agents s' ! i =
       (agents s ! i)\<lparr>storage := st_insert ops (storage (agents s ! i)) (step_transition ops step s i)\<rparr>) \<and>
    trace s' = trace s @ act_events ops step (agents s) @ [EnvStep Envs (step_actions ops step s)] @
       map (\<lambda>i. Insert (agent_id (agents s ! i)) (step_transition ops step s i)) [0..<length (agents s)]"
proof -
  obtain envs' obs reward dn infos where
    es: "env_step ops (envs s) (step_actions ops step s) = (envs', obs, reward, dn, infos)"
    by (metis prod_cases5)
  from assms have ne: "agents s \<noteq> []"
    by (auto simp: rollout_step_def Let_def act_outputs_def split: if_splits)
  let ?s0 = "s\<lparr>envs := envs', trace := trace s @ act_events ops step (agents s) @
              [EnvStep Envs (step_actions ops step s)]\<rparr>"
  from assms ne es obtain s1 where
    loop: "for_each (insert_agent ops obs (act_outputs ops step (agents s)) reward (masks_of dn) (bad_masks_of infos))
             [0..<length (agents s)] ?s0 = Inr s1"
    and s': "s' = s1\<lparr>all_infos := fold deque_append (filter (\<lambda>info. info \<noteq> []) infos) (all_infos s1)\<rparr>"
    by (auto simp: rollout_step_def Let_def step_actions_def act_outputs_def split: if_splits sum.splits)
  note L = insert_loop [OF loop, simplified]
  show ?thesis
    using L ne
    by (simp add: s' step_transition_def step_obs_def step_reward_def step_done_def step_infos_def es)
qed

lemma toy_step: "\<exists>s'. rollout_step toy_ops 0 toy_state = Inr s'"
  by (simp add: rollout_step_def toy_ops_def toy_state_def toy_agents_def act_outputs_def Let_def
      insert_agent_def index_def)

text \<open>
  Claim C1, as the code has it. In every rollout step that returns, the transition
  inserted into the storage of every agent carries a mask column and a bad-mask column
  computed from the done flags and the info dictionaries of that step: for every
  environment instance the mask is 0 exactly when the done flag of the instance is set
  (whether the episode ended by itself or was cut off by the time limit) and 1 otherwise,
  and the bad mask is 0 exactly when the info dictionary of the instance has a true
  \<open>"TimeLimit.truncated"\<close> entry and 1 otherwise.
\<close>

theorem rollout_step_masks:
  assumes "rollout_step ops step s = Inr s'" and "i < length (agents s)"
  shows "storage (agents s' ! i) =
           st_insert ops (storage (agents s ! i)) (step_transition ops step s i) \<and>
         Insert (agent_id (agents s ! i)) (step_transition ops step s i)
           \<in> set (drop (length (trace s)) (trace s')) \<and>
         length (tr_masks (step_transition ops step s i)) = length (step_done ops step s) \<and>
         length (tr_bad_masks (step_transition ops step s i)) = length (step_infos ops step s) \<and>
         (\<forall>k < length (step_done ops step s).
            (tr_masks (step_transition ops step s i) ! k = 0 \<longleftrightarrow> step_done ops step s ! k) \<and>
            (tr_masks (step_transition ops step s i) ! k = 1 \<longleftrightarrow> \<not> step_done ops step s ! k)) \<and>
         (\<forall>k < length (step_infos ops step s).
            (tr_bad_masks (step_transition ops step s i) ! k = 0
               \<longleftrightarrow> truncation_flag (step_infos ops step s ! k)) \<and>
            (tr_bad_masks (step_transition ops step s i) ! k = 1
               \<longleftrightarrow> \<not> truncation_flag (step_infos ops step s ! k)))"
proof -
  note R = rollout_step_Inr [OF assms(1)]
  have m: "tr_masks (step_transition ops step s i) = masks_of (step_done ops step s)"
    and b: "tr_bad_masks (step_transition ops step s i) = bad_masks_of (step_infos ops step s)"
    by (simp_all add: step_transition_def insert_args_def split: prod.splits)
  from R assms(2) have st: "storage (agents s' ! i) =
           st_insert ops (storage (agents s ! i)) (step_transition ops step s i)"
    by simp
  from R assms(2) have ev: "Insert (agent_id (agents s ! i)) (step_transition ops step s i)
           \<in> set (drop (length (trace s)) (trace s'))"
    by auto
  show ?thesis
    using st ev
    by (simp add: m b masks_of_def bad_masks_of_def truncation_flag_def truncated_key_def)
qed

theorem rollout_step_masks_witness:
  "\<exists>s'. rollout_step toy_ops 0 toy_state = Inr s' \<and>
     storage (agents s' ! 1) = [step_transition toy_ops 0 toy_state 1] \<and>
     tr_masks (step_transition toy_ops 0 toy_state 1) = [0, 0, 1] \<and>
     tr_bad_masks (step_transition toy_ops 0 toy_state 1) = [0, 1, 1]"
proof -
  obtain s' where s': "rollout_step toy_ops 0 toy_state = Inr s'"
    using toy_step by blast
  have i: "1 < length (agents toy_state)"
    by (simp add: toy_state_def toy_agents_def)
  have m: "tr_masks (step_transition toy_ops 0 toy_state 1) = [0, 0, 1]"
    and b: "tr_bad_masks (step_transition toy_ops 0 toy_state 1) = [0, 1, 1]"
    by (simp_all add: step_transition_def insert_args_def step_done_def step_infos_def toy_ops_def
        masks_of_def bad_masks_of_def toy_infos_def dict_get_def truncated_key_def split: prod.splits)
  from rollout_step_masks [OF s' i] have
    "storage (agents s' ! 1) = st_insert toy_ops (storage (agents toy_state ! 1)) (step_transition toy_ops 0 toy_state 1)"
    by blast
  then have "storage (agents s' ! 1) = [step_transition toy_ops 0 toy_state 1]"
    by (simp add: toy_ops_def toy_state_def toy_agents_def)
  with s' m b show ?thesis by blast
qed

text \<open>
  Claim C1 as the spec words it fails: in the step below instance 0 is cut off by the
  time limit, so its episode did not terminate naturally, and the mask inserted for it
  is 0 all the same.
\<close>

theorem rollout_step_masks_counterexample:
  "(case rollout_step toy_ops 0 toy_state of
      Inl e \<Rightarrow> False
    | Inr s' \<Rightarrow> tr_masks (last (storage (agents s' ! 0))) ! 0 = 0) \<and>
   \<not> natural_termination (step_done toy_ops 0 toy_state ! 0) (step_infos toy_ops 0 toy_state ! 0)"
  by (simp add: rollout_step_def toy_ops_def toy_state_def toy_agents_def act_outputs_def Let_def
      insert_agent_def index_def insert_args_def masks_of_def step_done_def step_infos_def
      natural_termination_def truncation_flag_def toy_infos_def dict_get_def act_events_def)

section \<open>The update cycle\<close>

lemma rollout_step_events:
  assumes "rollout_step ops step s = Inr s'"
  shows "\<exists>R. trace s' = trace s @ R \<and> (\<forall>e \<in> set R. is_rollout_event e) \<and>
            length (filter is_env_step R) = 1"
proof -
  note R = rollout_step_Inr [OF assms]
  let ?R = "act_events ops step (agents s) @ [EnvStep Envs (step_actions ops step s)] @
       map (\<lambda>i. Insert (agent_id (agents s ! i)) (step_transition ops step s i)) [0..<length (agents s)]"
  have "trace s' = trace s @ ?R" using R by simp
  moreover have "\<forall>e \<in> set ?R. is_rollout_event e"
    by (auto simp: act_events_def)
  moreover have "length (filter is_env_step ?R) = 1"
    by (simp add: act_events_def filter_map comp_def)
  ultimately show ?thesis by blast
qed

lemma rollout_step_agents:
  assumes "rollout_step ops step s = Inr s'"
  shows "map agent_id (agents s') = map agent_id (agents s) \<and> map model (agents s') = map model (agents s)
     \<and> length (agents s') = length (agents s) \<and> environment_steps s' = environment_steps s"
proof -
  note R = rollout_step_Inr [OF assms]
  then show ?thesis by (auto intro!: nth_equalityI)
qed

lemma rollout_Inr:
  "rollout ops n s = Inr s1 \<Longrightarrow>
     map agent_id (agents s1) = map agent_id (agents s) \<and> map model (agents s1) = map model (agents s) \<and>
     length (agents s1) = length (agents s) \<and>
     environment_steps s1 = environment_steps s \<and>
     (\<exists>R. trace s1 = trace s @ R \<and> (\<forall>e \<in> set R. is_rollout_event e) \<and>
            length (filter is_env_step R) = n)"
proof (induction n arbitrary: s1)
  case 0
  then show ?case by (simp add: rollout_def)
next
  case (Suc n)
  from Suc.prems obtain s' where s': "rollout ops n s = Inr s'"
    and step: "rollout_step ops n s' = Inr s1"
    by (auto simp: rollout_def for_each_append split: sum.splits)
  from Suc.IH [OF s'] obtain R where IH: "map agent_id (agents s') = map agent_id (agents s)"
    "map model (agents s') = map model (agents s)"
    "length (agents s') = length (agents s)"
    "environment_steps s' = environment_steps s"
    "trace s' = trace s @ R" "\<forall>e \<in> set R. is_rollout_event e" "length (filter is_env_step R) = n"
    by blast
  from rollout_step_events [OF step] obtain R' where R': "trace s1 = trace s' @ R'"
    "\<forall>e \<in> set R'. is_rollout_event e" "length (filter is_env_step R') = 1"
    by blast
  have "trace s1 = trace s @ (R @ R')" using IH R' by simp
  moreover have "\<forall>e \<in> set (R @ R'). is_rollout_event e" using IH R' by auto
  moreover have "length (filter is_env_step (R @ R')) = Suc n" using IH R' by simp
  ultimately have "\<exists>R. trace s1 = trace s @ R \<and> (\<forall>e \<in> set R. is_rollout_event e) \<and>
            length (filter is_env_step R) = Suc n" by blast
  with rollout_step_agents [OF step] IH show ?case by simp
qed

lemma compute_returns_agent_sel:
  "envs (compute_returns_agent ops i t) = envs t"
  "all_infos (compute_returns_agent ops i t) = all_infos t"
  "environment_steps (compute_returns_agent ops i t) = environment_steps t"
  "agents (compute_returns_agent ops i t) =
     (agents t)[i := (agents t ! i)\<lparr>storage := compute_returns ops (agents t ! i)\<rparr>]"
  "trace (compute_returns_agent ops i t) = trace t @ [ComputeReturns (agent_id (agents t ! i))]"
  by (simp_all add: compute_returns_agent_def Let_def)

lemma after_update_agent_sel:
  "envs (after_update_agent ops i t) = envs t"
  "all_infos (after_update_agent ops i t) = all_infos t"
  "environment_steps (after_update_agent ops i t) = environment_steps t"
  "agents (after_update_agent ops i t) =
     (agents t)[i := (agents t ! i)\<lparr>storage := st_after_update ops (storage (agents t ! i))\<rparr>]"
  "trace (after_update_agent ops i t) = trace t @ [AfterUpdate (agent_id (agents t ! i))]"
  by (simp_all add: after_update_agent_def Let_def)

lemma compute_returns_loop:
  "n \<le> length (agents s) \<Longrightarrow>
   envs (fold (compute_returns_agent ops) [0..<n] s) = envs s \<and>
   all_infos (fold (compute_returns_agent ops) [0..<n] s) = all_infos s \<and>
   environment_steps (fold (compute_returns_agent ops) [0..<n] s) = environment_steps s \<and>
   length (agents (fold (compute_returns_agent ops) [0..<n] s)) = length (agents s) \<and>
   (\<forall>i < length (agents s). agents (fold (compute_returns_agent ops) [0..<n] s) ! i =
       (if i < n then (agents s ! i)\<lparr>storage := compute_returns ops (agents s ! i)\<rparr> else agents s ! i)) \<and>
   trace (fold (compute_returns_agent ops) [0..<n] s) =
     trace s @ map (\<lambda>i. ComputeReturns (agent_id (agents s ! i))) [0..<n]"
proof (induction n)
  case 0
  then show ?case by simp
next
  case (Suc n)
  define t where "t = fold (compute_returns_agent ops) [0..<n] s"
  from Suc have IH: "envs t = envs s" "all_infos t = all_infos s"
   "environment_steps t = environment_steps s"
   "length (agents t) = length (agents s)"
   "\<forall>i < length (agents s). agents t ! i =
       (if i < n then (agents s ! i)\<lparr>storage := compute_returns ops (agents s ! i)\<rparr> else agents s ! i)"
   "trace t = trace s @ map (\<lambda>i. ComputeReturns (agent_id (agents s ! i))) [0..<n]"
    by (simp_all add: t_def)
  from Suc.prems IH(5) have an: "agents t ! n = agents s ! n"
    by simp
  have step: "fold (compute_returns_agent ops) [0..<Suc n] s = compute_returns_agent ops n t"
    by (simp add: t_def)
  show ?case
    unfolding step using IH Suc.prems an
    by (auto simp: compute_returns_agent_sel nth_list_update less_Suc_eq)
qed

lemma after_update_loop:
  "n \<le> length (agents s) \<Longrightarrow>
   envs (fold (after_update_agent ops) [0..<n] s) = envs s \<and>
   all_infos (fold (after_update_agent ops) [0..<n] s) = all_infos s \<and>
   environment_steps (fold (after_update_agent ops) [0..<n] s) = environment_steps s \<and>
   length (agents (fold (after_update_agent ops) [0..<n] s)) = length (agents s) \<and>
   (\<forall>i < length (agents s). agents (fold (after_update_agent ops) [0..<n] s) ! i =
       (if i < n then (agents s ! i)\<lparr>storage := st_after_update ops (storage (agents s ! i))\<rparr> else agents s ! i)) \<and>
   trace (fold (after_update_agent ops) [0..<n] s) =
     trace s @ map (\<lambda>i. AfterUpdate (agent_id (agents s ! i))) [0..<n]"
proof (induction n)
  case 0
  then show ?case by simp
next
  case (Suc n)
  define t where "t = fold (after_update_agent ops) [0..<n] s"
  from Suc have IH: "envs t = envs s" "all_infos t = all_infos s"
   "environment_steps t = environment_steps s"
   "length (agents t) = length (agents s)"
   "\<forall>i < length (agents s). agents t ! i =
       (if i < n then (agents s ! i)\<lparr>storage := st_after_update ops (storage (agents s ! i))\<rparr> else agents s ! i)"
   "trace t = trace s @ map (\<lambda>i. AfterUpdate (agent_id (agents s ! i))) [0..<n]"
    by (simp_all add: t_def)
  from Suc.prems IH(5) have an: "agents t ! n = agents s ! n"
    by simp
  have step: "fold (after_update_agent ops) [0..<Suc n] s = after_update_agent ops n t"
    by (simp add: t_def)
  show ?case
    unfolding step using IH Suc.prems an
    by (auto simp: after_update_agent_sel nth_list_update less_Suc_eq)
qed

lemma update_agent_sel:
  "envs (update_agent ops w j i t) = envs t"
  "all_infos (update_agent ops w j i t) = all_infos t"
  "environment_steps (update_agent ops w j i t) = environment_steps t"
  "length (agents (update_agent ops w j i t)) = length (agents t)"
  "trace (update_agent ops w j i t) =
     trace t @ update_events ops w j (agents t ! i) (map storage (agents t))"
  by (simp_all add: update_agent_def Let_def)

lemma update_agent_ids:
  "map agent_id (agents (update_agent ops w j i t)) = map agent_id (agents t)"
proof (rule nth_equalityI)
  show "length (map agent_id (agents (update_agent ops w j i t))) = length (map agent_id (agents t))"
    by (simp add: update_agent_sel)
next
  fix k assume "k < length (map agent_id (agents (update_agent ops w j i t)))"
  then have k: "k < length (agents t)" by (simp add: update_agent_sel)
  then show "map agent_id (agents (update_agent ops w j i t)) ! k = map agent_id (agents t) ! k"
    by (cases "i = k") (simp_all add: update_agent_def Let_def)
qed


lemma update_in_order_snoc:
  "update_in_order ops w j (xs @ [x]) s = update_agent ops w j x (update_in_order ops w j xs s)"
  by (simp add: update_in_order_def)

lemma update_in_order_sel:
  "envs (update_in_order ops w j order s) = envs s \<and>
   all_infos (update_in_order ops w j order s) = all_infos s \<and>
   environment_steps (update_in_order ops w j order s) = environment_steps s \<and>
   length (agents (update_in_order ops w j order s)) = length (agents s) \<and>
   map agent_id (agents (update_in_order ops w j order s)) = map agent_id (agents s)"
proof (induction order rule: rev_induct)
  case Nil
  then show ?case by (simp add: update_in_order_def)
next
  case (snoc x xs)
  then show ?case
    by (simp add: update_in_order_snoc update_agent_sel update_agent_ids)
qed


lemma update_in_order_trace:
  "trace (update_in_order ops w j order s) =
     trace s @ concat (map (\<lambda>k. update_events ops w j
        (agents (update_in_order ops w j (take k order) s) ! (order ! k))
        (map storage (agents (update_in_order ops w j (take k order) s)))) [0..<length order])"
proof (induction order rule: rev_induct)
  case Nil
  then show ?case by (simp add: update_in_order_def)
next
  case (snoc x xs)
  have eq: "map (\<lambda>k. update_events ops w j
        (agents (update_in_order ops w j (take k (xs @ [x])) s) ! ((xs @ [x]) ! k))
        (map storage (agents (update_in_order ops w j (take k (xs @ [x])) s)))) [0..<length xs]
      = map (\<lambda>k. update_events ops w j
        (agents (update_in_order ops w j (take k xs) s) ! (xs ! k))
        (map storage (agents (update_in_order ops w j (take k xs) s)))) [0..<length xs]"
    by (rule map_cong) (auto simp: nth_append)
  have "trace (update_in_order ops w j (xs @ [x]) s) =
      trace (update_in_order ops w j xs s) @
      update_events ops w j (agents (update_in_order ops w j xs s) ! x)
        (map storage (agents (update_in_order ops w j xs s)))"
    by (simp add: update_in_order_snoc update_agent_sel)
  also have "\<dots> = trace s @ concat (map (\<lambda>k. update_events ops w j
        (agents (update_in_order ops w j (take k xs) s) ! (xs ! k))
        (map storage (agents (update_in_order ops w j (take k xs) s)))) [0..<length xs]) @
      update_events ops w j (agents (update_in_order ops w j xs s) ! x)
        (map storage (agents (update_in_order ops w j xs s)))"
    by (simp add: snoc)
  also have "\<dots> = trace s @ concat (map (\<lambda>k. update_events ops w j
        (agents (update_in_order ops w j (take k (xs @ [x])) s) ! ((xs @ [x]) ! k))
        (map storage (agents (update_in_order ops w j (take k (xs @ [x])) s)))) [0..<length (xs @ [x])])"
    unfolding length_append_singleton upt_Suc_append [OF le0] map_append concat_append eq
    by simp
  finally show ?case .
qed

lemma filter_update_events:
  "filter is_update_call (update_events ops w j a storages) = [Update (agent_id a) storages]"
  by (auto simp: update_events_def filter_map comp_def split_def)

lemma update_events_kinds:
  "\<forall>e \<in> set (update_events ops w j a storages). is_update_call e \<or> is_add_scalar e"
  by (auto simp: update_events_def)

lemma compute_returns_all_sel:
  "envs (compute_returns_all ops s) = envs s \<and>
   all_infos (compute_returns_all ops s) = all_infos s \<and>
   environment_steps (compute_returns_all ops s) = environment_steps s \<and>
   length (agents (compute_returns_all ops s)) = length (agents s) \<and>
   map agent_id (agents (compute_returns_all ops s)) = map agent_id (agents s) \<and>
   map model (agents (compute_returns_all ops s)) = map model (agents s) \<and>
   (\<forall>i < length (agents s). storage (agents (compute_returns_all ops s) ! i) = compute_returns ops (agents s ! i)) \<and>
   trace (compute_returns_all ops s) = trace s @ map ComputeReturns (map agent_id (agents s))"
proof -
  note L = compute_returns_loop [of "length (agents s)" s ops, OF le_refl, folded compute_returns_all_def]
  have "map (\<lambda>i. ComputeReturns (agent_id (agents s ! i))) [0..<length (agents s)] =
        map ComputeReturns (map agent_id (agents s))"
    by (rule nth_equalityI) simp_all
  with L show ?thesis
    by (auto intro!: nth_equalityI)
qed

lemma after_update_all_sel:
  "envs (after_update_all ops s) = envs s \<and>
   all_infos (after_update_all ops s) = all_infos s \<and>
   environment_steps (after_update_all ops s) = environment_steps s \<and>
   length (agents (after_update_all ops s)) = length (agents s) \<and>
   map agent_id (agents (after_update_all ops s)) = map agent_id (agents s) \<and>
   map model (agents (after_update_all ops s)) = map model (agents s) \<and>
   (\<forall>i < length (agents s). storage (agents (after_update_all ops s) ! i) = st_after_update ops (storage (agents s ! i))) \<and>
   trace (after_update_all ops s) = trace s @ map AfterUpdate (map agent_id (agents s))"
proof -
  note L = after_update_loop [of "length (agents s)" s ops, OF le_refl, folded after_update_all_def]
  have "map (\<lambda>i. AfterUpdate (agent_id (agents s ! i))) [0..<length (agents s)] =
        map AfterUpdate (map agent_id (agents s))"
    by (rule nth_equalityI) simp_all
  with L show ?thesis
    by (auto intro!: nth_equalityI)
qed

lemma filter_concat_update_events:
  "filter is_update_call (concat (map (\<lambda>k. update_events ops w j (a k) (ss k)) ks)) =
     map (\<lambda>k. Update (agent_id (a k)) (ss k)) ks"
  by (induction ks) (simp_all add: filter_update_events)

lemma update_all_trace:
  assumes ids: "map agent_id (agents s) = [0..<length (agents s)]"
  shows "\<exists>U. trace (update_all ops w j s) = trace s @ U \<and>
     (\<forall>e \<in> set U. is_update_call e \<or> is_add_scalar e) \<and>
     filter is_update_call U =
       map (\<lambda>i. Update i (map storage (agents (update_in_order ops w j [0..<i] s))))
         [0..<length (agents s)]"
proof -
  let ?n = "length (agents s)"
  let ?U = "concat (map (\<lambda>k. update_events ops w j
        (agents (update_in_order ops w j (take k [0..<?n]) s) ! ([0..<?n] ! k))
        (map storage (agents (update_in_order ops w j (take k [0..<?n]) s)))) [0..<length [0..<?n]])"
  have tr: "trace (update_all ops w j s) = trace s @ ?U"
    unfolding update_all_def by (rule update_in_order_trace)
  have kinds: "\<forall>e \<in> set ?U. is_update_call e \<or> is_add_scalar e"
    using update_events_kinds by fastforce
  have "filter is_update_call ?U =
      map (\<lambda>k. Update (agent_id (agents (update_in_order ops w j (take k [0..<?n]) s) ! ([0..<?n] ! k)))
                (map storage (agents (update_in_order ops w j (take k [0..<?n]) s)))) [0..<length [0..<?n]]"
    by (rule filter_concat_update_events)
  also have "\<dots> = map (\<lambda>i. Update i (map storage (agents (update_in_order ops w j [0..<i] s)))) [0..<?n]"
  proof (rule nth_equalityI)
    show "length (map (\<lambda>k. Update (agent_id (agents (update_in_order ops w j (take k [0..<?n]) s) ! ([0..<?n] ! k)))
                (map storage (agents (update_in_order ops w j (take k [0..<?n]) s)))) [0..<length [0..<?n]]) =
          length (map (\<lambda>i. Update i (map storage (agents (update_in_order ops w j [0..<i] s)))) [0..<?n])"
      by simp
  next
    fix k assume "k < length (map (\<lambda>k. Update (agent_id (agents (update_in_order ops w j (take k [0..<?n]) s) ! ([0..<?n] ! k)))
                (map storage (agents (update_in_order ops w j (take k [0..<?n]) s)))) [0..<length [0..<?n]])"
    then have k: "k < ?n" by simp
    then have tk: "take k [0..<?n] = [0..<k]"
      by (simp add: take_upt)
    from update_in_order_sel [of ops w j "[0..<k]" s] ids
    have "map agent_id (agents (update_in_order ops w j [0..<k] s)) = [0..<?n]"
      and len: "length (agents (update_in_order ops w j [0..<k] s)) = ?n" by simp_all
    then have "map agent_id (agents (update_in_order ops w j [0..<k] s)) ! k = [0..<?n] ! k" by simp
    with k len have "agent_id (agents (update_in_order ops w j [0..<k] s) ! k) = k" by simp
    with k tk show "map (\<lambda>k. Update (agent_id (agents (update_in_order ops w j (take k [0..<?n]) s) ! ([0..<?n] ! k)))
                (map storage (agents (update_in_order ops w j (take k [0..<?n]) s)))) [0..<length [0..<?n]] ! k =
          map (\<lambda>i. Update i (map storage (agents (update_in_order ops w j [0..<i] s)))) [0..<?n] ! k"
      by simp
  qed
  finally show ?thesis using tr kinds by blast
qed

text \<open>
  Claim C3. In every update cycle the orchestrator first runs exactly \<open>num_steps\<close>
  rollout steps, then calls \<open>compute_returns()\<close> for every agent, then calls \<open>update()\<close>
  for every agent in ascending order of \<open>agent_id\<close>, handing each call the list of the
  storages of all agents in agent order (as they are at the time of the call), and only
  after all updates calls \<open>after_update()\<close> on the storage of every agent. The agents
  are numbered by their position, as \<open>main\<close> builds them.
\<close>

theorem train_phase_order:
  assumes run: "train_phase ops cfg alg j s = Inr s'"
      and ids: "map agent_id (agents s) = [0..<length (agents s)]"
  shows "\<exists>s1 R U.
     rollout ops (num_steps alg)
       (s\<lparr>environment_steps := environment_steps s + int (num_steps alg) * int (num_envs alg)\<rparr>) = Inr s1 \<and>
     trace s1 = trace s @ R \<and>
     (\<forall>e \<in> set R. is_rollout_event e) \<and>
     length (filter is_env_step R) = num_steps alg \<and>
     trace s' = trace s1 @ map ComputeReturns [0..<length (agents s)] @ U @
                map AfterUpdate [0..<length (agents s)] \<and>
     (\<forall>e \<in> set U. is_update_call e \<or> is_add_scalar e) \<and>
     filter is_update_call U =
       map (\<lambda>i. Update i (map storage (agents
              (update_in_order ops (loss_dir cfg \<noteq> []) j [0..<i] (compute_returns_all ops s1)))))
         [0..<length (agents s)] \<and>
     (\<forall>i < length (agents s).
        length (agents (update_in_order ops (loss_dir cfg \<noteq> []) j [0..<i] (compute_returns_all ops s1)))
          = length (agents s) \<and>
        map agent_id (agents (update_in_order ops (loss_dir cfg \<noteq> []) j [0..<i] (compute_returns_all ops s1)))
          = [0..<length (agents s)])"
proof -
  let ?w = "loss_dir cfg \<noteq> []"
  let ?s0 = "s\<lparr>environment_steps := environment_steps s + int (num_steps alg) * int (num_envs alg)\<rparr>"
  from run obtain s1 where r: "rollout ops (num_steps alg) ?s0 = Inr s1"
    and s': "s' = after_update_all ops (update_all ops ?w j (compute_returns_all ops s1))"
    by (auto simp: train_phase_def split: sum.splits)
  from rollout_Inr [OF r] obtain R where R: "trace s1 = trace s @ R"
    "\<forall>e \<in> set R. is_rollout_event e" "length (filter is_env_step R) = num_steps alg"
    and ids1: "map agent_id (agents s1) = map agent_id (agents s)"
    and len1: "length (agents s1) = length (agents s)"
    by auto
  let ?c = "compute_returns_all ops s1"
  note C = compute_returns_all_sel [of ops s1]
  from C ids ids1 len1 have idsc: "map agent_id (agents ?c) = [0..<length (agents ?c)]"
    and lenc: "length (agents ?c) = length (agents s)" by simp_all
  from update_all_trace [OF idsc, of ops ?w j] obtain U where
    U: "trace (update_all ops ?w j ?c) = trace ?c @ U"
      "\<forall>e \<in> set U. is_update_call e \<or> is_add_scalar e"
      "filter is_update_call U =
         map (\<lambda>i. Update i (map storage (agents (update_in_order ops ?w j [0..<i] ?c)))) [0..<length (agents ?c)]"
    by blast
  let ?u = "update_all ops ?w j ?c"
  from update_in_order_sel [of ops ?w j "[0..<length (agents ?c)]" ?c] idsc lenc
  have idsu: "map agent_id (agents ?u) = [0..<length (agents s)]"
    by (simp add: update_all_def)
  note A = after_update_all_sel [of ops ?u]
  have tr: "trace s' = trace s1 @ map ComputeReturns [0..<length (agents s)] @ U @
                map AfterUpdate [0..<length (agents s)]"
    using A C U(1) idsu ids ids1 by (simp add: s')
  have each: "\<forall>i < length (agents s).
        length (agents (update_in_order ops ?w j [0..<i] ?c)) = length (agents s) \<and>
        map agent_id (agents (update_in_order ops ?w j [0..<i] ?c)) = [0..<length (agents s)]"
    using update_in_order_sel [of ops ?w j _ ?c] idsc lenc by simp
  from r R tr U(2) U(3) each lenc show ?thesis
    by (intro exI [of _ s1] exI [of _ R] exI [of _ U]) simp
qed

lemma toy_train: "\<exists>s'. train_phase toy_ops toy_cfg toy_alg 1 toy_state = Inr s'"
  by (simp add: train_phase_def rollout_def rollout_step_def toy_ops_def toy_state_def toy_agents_def
      toy_alg_def act_outputs_def Let_def insert_agent_def index_def numeral_2_eq_2)

lemma toy_ids: "map agent_id (agents toy_state) = [0..<length (agents toy_state)]"
  by (simp add: toy_state_def toy_agents_def numeral_2_eq_2)

theorem train_phase_order_witness:
  "map agent_id (agents toy_state) = [0..<length (agents toy_state)] \<and>
   (\<exists>s' (s1 :: (nat, int, int, int transition list) state) R U.
      train_phase toy_ops toy_cfg toy_alg 1 toy_state = Inr s' \<and>
      trace s1 = trace toy_state @ R \<and>
      length (filter is_env_step R) = 2 \<and>
      trace s' = trace s1 @ [ComputeReturns 0, ComputeReturns 1] @ U @ [AfterUpdate 0, AfterUpdate 1] \<and>
      length (filter is_update_call U) = 2)"
proof -
  obtain s' where s': "train_phase toy_ops toy_cfg toy_alg 1 toy_state = Inr s'"
    using toy_train by blast
  have n: "length (agents toy_state) = 2" and h: "num_steps toy_alg = 2"
    by (simp_all add: toy_state_def toy_agents_def toy_alg_def)
  have upt2: "[0..<2] = [0, Suc 0]"
    by (simp add: numeral_2_eq_2)
  from train_phase_order [OF s' toy_ids] obtain s1 R U where
    "trace s1 = trace toy_state @ R"
    "length (filter is_env_step R) = num_steps toy_alg"
    "trace s' = trace s1 @ map ComputeReturns [0..<length (agents toy_state)] @ U @
                map AfterUpdate [0..<length (agents toy_state)]"
    "filter is_update_call U =
       map (\<lambda>i. Update i (map storage (agents
              (update_in_order toy_ops (loss_dir toy_cfg \<noteq> []) 1 [0..<i] (compute_returns_all toy_ops s1)))))
         [0..<length (agents toy_state)]"
    by blast
  then have "trace s1 = trace toy_state @ R \<and>
      length (filter is_env_step R) = 2 \<and>
      trace s' = trace s1 @ [ComputeReturns 0, ComputeReturns 1] @ U @ [AfterUpdate 0, AfterUpdate 1] \<and>
      length (filter is_update_call U) = 2"
    by (simp add: n h upt2)
  with s' toy_ids show ?thesis by blast
qed

section \<open>Shared experience: who reads and who writes a storage\<close>









section \<open>The log point\<close>

lemma log_phase_eq:
  "log_phase cfg alg j s =
     (if log_interval cfg = 0 then Inl ZeroDivisionError
      else if j mod log_interval cfg = 0 \<and> 1 < length (all_infos s)
      then (case squash_info (all_infos s) ''episode_reward'' of
              None \<Rightarrow> Inl KeyError
            | Some r \<Rightarrow>
                Inr (s\<lparr>trace := trace s @
                          [LogUpdates j ((j + 1) * int (num_envs alg) * int (num_steps alg)),
                           LogReward (length (all_infos s)) r,
                           WandbLog ((squash_info (all_infos s))
                             (''environment_steps'' \<mapsto> real_of_int (environment_steps s)))],
                       all_infos := []\<rparr>))
      else Inr s)"
  by (simp add: log_phase_def log_due_def Let_def split: bool.splits)

lemma log_phase_Inr:
  assumes "log_phase cfg alg j s = Inr s'"
  shows "envs s' = envs s \<and> agents s' = agents s \<and> environment_steps s' = environment_steps s \<and>
         log_interval cfg \<noteq> 0"
  using assms
  by (auto simp: log_phase_eq split: if_splits option.splits)

text \<open>
  Claim C5, as the code has it. At the log point of every update index \<open>j\<close> that is
  passed without an exception, the aggregated metrics are sent to the metrics sink if
  and only if \<open>j % log_interval = 0\<close> and the info window holds more than one entry;
  the flush is the last call of the log point and leaves the window empty, and without a
  flush nothing changes.
\<close>

theorem log_phase_flush:
  assumes "log_phase cfg alg j s = Inr s'"
  shows "((\<exists>m. WandbLog m \<in> set (drop (length (trace s)) (trace s')))
            \<longleftrightarrow> j mod log_interval cfg = 0 \<and> 1 < length (all_infos s)) \<and>
         ((\<exists>m. WandbLog m \<in> set (drop (length (trace s)) (trace s'))) \<longrightarrow>
            all_infos s' = [] \<and>
            last (trace s') =
              WandbLog ((squash_info (all_infos s))
                 (''environment_steps'' \<mapsto> real_of_int (environment_steps s)))) \<and>
         (\<not> (\<exists>m. WandbLog m \<in> set (drop (length (trace s)) (trace s'))) \<longrightarrow> s' = s)"
  using assms
  by (auto simp: log_phase_eq split: if_splits option.splits)

lemma squash_toy_infos: "squash_info toy_infos = [''episode_reward'' \<mapsto> 11 / 2]"
  by (rule ext)
    (simp add: squash_info_apply squash_mean_def np_mean_def has_key_def truncated_key_def toy_infos_def)

theorem log_phase_flush_witness:
  "\<exists>s'. log_phase toy_cfg toy_alg 3 (toy_state\<lparr>all_infos := toy_infos\<rparr>) = Inr s' \<and>
     last (trace s') = WandbLog [''episode_reward'' \<mapsto> 11 / 2, ''environment_steps'' \<mapsto> 0] \<and>
     all_infos s' = []"
proof -
  have len: "length toy_infos = 3" by (simp add: toy_infos_def)
  obtain s' where s': "log_phase toy_cfg toy_alg 3 (toy_state\<lparr>all_infos := toy_infos\<rparr>) = Inr s'"
    by (simp add: log_phase_eq toy_cfg_def squash_toy_infos len)
  have due: "3 mod log_interval toy_cfg = 0 \<and> 1 < length (all_infos (toy_state\<lparr>all_infos := toy_infos\<rparr>))"
    by (simp add: toy_cfg_def len)
  from log_phase_flush [OF s'] due
  have "all_infos s' = []"
    and "last (trace s') = WandbLog ((squash_info (all_infos (toy_state\<lparr>all_infos := toy_infos\<rparr>)))
       (''environment_steps'' \<mapsto> real_of_int (environment_steps (toy_state\<lparr>all_infos := toy_infos\<rparr>))))"
    by blast+
  then show ?thesis using s' by (simp add: squash_toy_infos toy_state_def)
qed

text \<open>
  Claim C5 as the spec words it fails: at update 100 of the configuration of the source,
  with a window of one entry, the window is not empty and nothing is flushed.
\<close>

theorem log_phase_flush_counterexample:
  "100 mod log_interval (source_config ''run'') = 0 \<and>
   all_infos (toy_state\<lparr>all_infos := one_info\<rparr>) \<noteq> [] \<and>
   log_phase (source_config ''run'') toy_alg 100 (toy_state\<lparr>all_infos := one_info\<rparr>)
     = Inr (toy_state\<lparr>all_infos := one_info\<rparr>)"
  by (simp add: log_phase_eq source_config_def one_info_def)

section \<open>Checkpoints\<close>

lemma digit_char_in: "d < 10 \<Longrightarrow> digit_char d \<in> set ''0123456789''"
  unfolding digit_char_def by (rule nth_mem) simp

lemma digit_char_inj: "d < 10 \<Longrightarrow> e < 10 \<Longrightarrow> digit_char d = digit_char e \<Longrightarrow> d = e"
proof -
  assume d: "d < 10" and e: "e < 10" and eq: "digit_char d = digit_char e"
  have dist: "distinct ''0123456789''" by simp
  have "d < length ''0123456789''" "e < length ''0123456789''" using d e by simp_all
  with dist eq show "d = e"
    unfolding digit_char_def by (simp only: nth_eq_iff_index_eq)
qed

lemma str_nat_nonempty: "str_nat n \<noteq> []"
  by (subst str_nat.simps) simp

lemma last_str_nat: "last (str_nat n) = digit_char (n mod 10)"
  by (subst str_nat.simps) simp

lemma butlast_str_nat: "butlast (str_nat n) = (if n < 10 then [] else str_nat (n div 10))"
  by (subst str_nat.simps) simp

lemma str_nat_inj: "str_nat n = str_nat m \<Longrightarrow> n = m"
proof (induction n arbitrary: m rule: str_nat.induct)
  case (1 n)
  from "1.prems" have l: "digit_char (n mod 10) = digit_char (m mod 10)"
    by (metis last_str_nat)
  then have md: "n mod 10 = m mod 10"
    by (intro digit_char_inj) simp_all
  from "1.prems" have b: "(if n < 10 then [] else str_nat (n div 10)) = (if m < 10 then [] else str_nat (m div 10))"
    by (metis butlast_str_nat)
  show ?case
  proof (cases "n < 10")
    case True
    with b have "m < 10"
      using str_nat_nonempty [of "m div 10"] by (auto split: if_splits)
    with True md show ?thesis by simp
  next
    case False
    with b have m: "\<not> m < 10" and eq: "str_nat (n div 10) = str_nat (m div 10)"
      using str_nat_nonempty [of "n div 10"] by (auto split: if_splits)
    from "1.IH" [OF False eq] have "n div 10 = m div 10" .
    with md show ?thesis
      by (metis div_mult_mod_eq)
  qed
qed

lemma last_str_nat_not_slash: "last (str_nat n) \<noteq> CHR ''/''"
proof -
  have "digit_char (n mod 10) \<in> set ''0123456789''"
    by (rule digit_char_in) simp
  then show ?thesis
    unfolding last_str_nat by auto
qed

lemma str_int_last: "str_int j \<noteq> [] \<and> last (str_int j) \<noteq> CHR ''/''"
  by (simp add: str_int_def str_nat_nonempty last_str_nat_not_slash)

lemma cur_save_dir_last: "cur_save_dir cfg j \<noteq> [] \<and> last (cur_save_dir cfg j) \<noteq> CHR ''/''"
  using str_int_last [of j]
  by (simp add: cur_save_dir_def path_join_def)

lemma save_at_eq: "save_at cfg j aid = cur_save_dir cfg j @ ''/agent'' @ str_nat aid"
  using cur_save_dir_last [of cfg j]
  by (simp add: save_at_def path_join_def)

lemma save_at_inj: "save_at cfg j a = save_at cfg j b \<longleftrightarrow> a = b"
  by (auto simp: save_at_eq dest: str_nat_inj)

lemma save_agents_fold:
  "fold (save_agent cfg j) ags s =
     s\<lparr>trace := trace s @
          concat (map (\<lambda>a. [Makedirs (save_at cfg j (agent_id a)),
                            AgentSave (agent_id a) (model a) (save_at cfg j (agent_id a))]) ags)\<rparr>"
  by (induction ags arbitrary: s) (simp_all add: save_agent_def)

text \<open>
  Claim C7. A checkpoint cycle makes, for every agent in turn, the directory
  \<open>cur_save_dir/agent<id>\<close> (and with it the directory of the cycle) and saves the model
  of that agent into it; distinct agents get distinct subdirectories. Then it archives
  the directory of the cycle, \<open>save_dir/u<j>\<close>, into one \<open>xztar\<close> archive with the base
  name \<open>cur_save_dir\<close>, then removes the directory of the cycle, and hands the file name
  that \<open>make_archive\<close> returned to the metrics sink. Nothing else changes.
\<close>

theorem checkpoint_layout:
  "trace (checkpoint ops cfg j s) =
     trace s @
     concat (map (\<lambda>a. [Makedirs (save_at cfg j (agent_id a)),
                       AgentSave (agent_id a) (model a) (save_at cfg j (agent_id a))]) (agents s)) @
     [MakeArchive (cur_save_dir cfg j) ''xztar'' (save_dir cfg) (''u'' @ str_int j),
      Rmtree (cur_save_dir cfg j),
      LogArtifact (make_archive ops (cur_save_dir cfg j) ''xztar'' (save_dir cfg) (''u'' @ str_int j)) None] \<and>
   path_join (save_dir cfg) (''u'' @ str_int j) = cur_save_dir cfg j \<and>
   (\<forall>aid. save_at cfg j aid = cur_save_dir cfg j @ ''/agent'' @ str_nat aid) \<and>
   (\<forall>a b. save_at cfg j a = save_at cfg j b \<longleftrightarrow> a = b) \<and>
   agents (checkpoint ops cfg j s) = agents s \<and> envs (checkpoint ops cfg j s) = envs s \<and>
   all_infos (checkpoint ops cfg j s) = all_infos s \<and>
   environment_steps (checkpoint ops cfg j s) = environment_steps s"
proof -
  have "trace (checkpoint ops cfg j s) =
     trace s @
     concat (map (\<lambda>a. [Makedirs (save_at cfg j (agent_id a)),
                       AgentSave (agent_id a) (model a) (save_at cfg j (agent_id a))]) (agents s)) @
     [MakeArchive (cur_save_dir cfg j) ''xztar'' (save_dir cfg) (''u'' @ str_int j),
      Rmtree (cur_save_dir cfg j),
      LogArtifact (make_archive ops (cur_save_dir cfg j) ''xztar'' (save_dir cfg) (''u'' @ str_int j)) None]"
    by (simp add: checkpoint_def save_agents_fold Let_def)
  moreover have "path_join (save_dir cfg) (''u'' @ str_int j) = cur_save_dir cfg j"
    by (simp add: cur_save_dir_def)
  moreover have "agents (checkpoint ops cfg j s) = agents s \<and> envs (checkpoint ops cfg j s) = envs s \<and>
     all_infos (checkpoint ops cfg j s) = all_infos s \<and>
     environment_steps (checkpoint ops cfg j s) = environment_steps s"
    by (simp add: checkpoint_def save_agents_fold Let_def)
  ultimately show ?thesis
    using save_at_eq [of cfg j] save_at_inj [of cfg j] by blast
qed

theorem checkpoint_layout_witness:
  "trace (checkpoint toy_ops toy_cfg 2 toy_state) =
     [Makedirs ''sv/u2/agent0'', AgentSave 0 0 ''sv/u2/agent0'',
      Makedirs ''sv/u2/agent1'', AgentSave 1 1 ''sv/u2/agent1'',
      MakeArchive ''sv/u2'' ''xztar'' ''sv'' ''u2'', Rmtree ''sv/u2'',
      LogArtifact ''/work/sv/u2.tar.xz'' None]"
proof -
  have u: "str_int 2 = ''2''"
    by (simp add: str_int_def str_nat.simps digit_char_def)
  have sd: "save_dir toy_cfg = ''sv''"
    by (simp add: toy_cfg_def)
  have c: "cur_save_dir toy_cfg 2 = ''sv/u2''"
    by (simp add: cur_save_dir_def path_join_def sd u)
  have a0: "str_nat 0 = ''0''" and a1: "str_nat (Suc 0) = ''1''"
    by (simp_all add: str_nat.simps digit_char_def)
  have s0: "save_at toy_cfg 2 0 = ''sv/u2/agent0''" and s1: "save_at toy_cfg 2 (Suc 0) = ''sv/u2/agent1''"
    by (simp_all add: save_at_eq c a0 a1)
  have m: "make_archive toy_ops ''sv/u2'' ''xztar'' ''sv'' ''u2'' = ''/work/sv/u2.tar.xz''"
    by (simp add: toy_ops_def)
  have ag: "agents toy_state = [\<lparr>agent_id = 0, model = 0, storage = []\<rparr>,
                               \<lparr>agent_id = Suc 0, model = 1, storage = []\<rparr>]"
    and tr: "trace toy_state = []"
    by (simp_all add: toy_state_def toy_agents_def)
  from checkpoint_layout [of toy_ops toy_cfg 2 toy_state, THEN conjunct1]
  show ?thesis
    unfolding ag tr c u sd by (simp add: s0 s1 m)
qed

section \<open>The evaluation loop\<close>

lemma comprehension_Inr:
  "comprehension f xs = Inr ys \<Longrightarrow> length ys = length xs \<and> (\<forall>i < length xs. f (xs ! i) = Inr (ys ! i))"
proof (induction xs arbitrary: ys)
  case Nil
  then show ?case by simp
next
  case (Cons x xs)
  from Cons.prems obtain y ys' where y: "f x = Inr y" and ys': "comprehension f xs = Inr ys'"
    and ys: "ys = y # ys'"
    by (auto split: sum.splits)
  from Cons.IH [OF ys'] y ys show ?case
    by (auto simp: nth_Cons split: nat.splits)
qed

lemma eval_inputs_Inr:
  assumes "eval_inputs ags st = Inr ins"
  shows "ins = map (\<lambda>(a, h). (a, ev_obs st ! agent_id a, h)) (zip ags (ev_hidden st))"
proof (rule nth_equalityI)
  note C = comprehension_Inr [OF assms [unfolded eval_inputs_def]]
  from C show "length ins = length (map (\<lambda>(a, h). (a, ev_obs st ! agent_id a, h)) (zip ags (ev_hidden st)))"
    by simp
  fix i assume "i < length ins"
  with C have i: "i < length (zip ags (ev_hidden st))" by simp
  with C have "(case zip ags (ev_hidden st) ! i of (a, h) \<Rightarrow>
      case index (ev_obs st) (agent_id a) of Inl e \<Rightarrow> Inl e | Inr ob \<Rightarrow> Inr (a, ob, h)) = Inr (ins ! i)"
    by blast
  then have "ins ! i = (case zip ags (ev_hidden st) ! i of (a, h) \<Rightarrow> (a, ev_obs st ! agent_id a, h))"
    by (auto simp: index_def split: prod.splits sum.splits if_splits)
  with i show "ins ! i = map (\<lambda>(a, h). (a, ev_obs st ! agent_id a, h)) (zip ags (ev_hidden st)) ! i"
    by simp
qed

text \<open>What one round of the evaluation loop does when it returns.\<close>

lemma eval_step_Inr:
  assumes "eval_step ops ags st = Inr st'"
  shows "ev_masks st' = ev_masks st \<and>
     length (ev_hidden st') = min (length ags) (length (ev_hidden st)) \<and>
     (\<exists>acts infos.
        ev_trace st' = ev_trace st @
          map (\<lambda>(a, h). Act (agent_id a) (ev_obs st ! agent_id a) h (ev_masks st)) (zip ags (ev_hidden st)) @
          [EnvStep EvalEnvs acts] \<and>
        length acts = min (length ags) (length (ev_hidden st)) \<and>
        ev_infos st' = ev_infos st @ filter (\<lambda>i. i \<noteq> []) infos)"
proof -
  from assms obtain ins where ins: "eval_inputs ags st = Inr ins"
    by (auto simp: eval_step_def split: sum.splits)
  note I = eval_inputs_Inr [OF ins]
  let ?outs = "map (\<lambda>(a, ob, h). act ops (model a) ob h (ev_masks st)) ins"
  let ?acts = "map (\<lambda>(value, action, lp, rhs). action) ?outs"
  obtain envs' obs reward dn infos where
    es: "env_step ops (ev_envs st) ?acts = (envs', obs, reward, dn, infos)"
    by (metis prod_cases5)
  from assms ins es have st': "st' = st\<lparr>ev_envs := envs', ev_obs := obs,
        ev_hidden := map (\<lambda>(value, action, lp, rhs). rhs) ?outs,
        ev_n_masks := Some (masks_of dn),
        ev_infos := ev_infos st @ filter (\<lambda>i. i \<noteq> []) infos,
        ev_trace := ev_trace st @ map (\<lambda>(a, ob, h). Act (agent_id a) ob h (ev_masks st)) ins @
                    [EnvStep EvalEnvs ?acts]\<rparr>"
    by (auto simp: eval_step_def Let_def split: if_splits)
  have m: "map (\<lambda>(a, ob, h). Act (agent_id a) ob h (ev_masks st)) ins =
        map (\<lambda>(a, h). Act (agent_id a) (ev_obs st ! agent_id a) h (ev_masks st)) (zip ags (ev_hidden st))"
    by (simp add: I comp_def split_def)
  have l: "length ins = min (length ags) (length (ev_hidden st))"
    by (simp add: I)
  show ?thesis
    unfolding st' using m l by auto
qed

lemma eval_step_n_masks:
  "eval_step ops ags (st\<lparr>ev_n_masks := x\<rparr>) = eval_step ops ags st"
  by (simp add: eval_step_def eval_inputs_def Let_def split: sum.splits prod.splits)

lemmas eval_loop_induct = eval_loop.raw_induct [rotated 1, consumes 1, case_names step]

lemma eval_loop_Some_iter:
  assumes "eval_loop ops ags n st = Some r"
  shows "\<exists>k. eval_iter ops ags k st = r \<and>
         (case r of Inl e \<Rightarrow> True | Inr st' \<Rightarrow> n \<le> length (ev_infos st')) \<and>
         (\<forall>i < k. \<exists>st_i. eval_iter ops ags i st = Inr st_i \<and> length (ev_infos st_i) < n)"
  using assms
proof (induct rule: eval_loop_induct)
  case (step loop ops ags n st r)
  note 1 = step
  show ?case
  proof (cases "length (ev_infos st) < n")
    case False
    with 1(2) have "r = Inr st" by simp
    with False have "eval_iter ops ags 0 st = r \<and>
         (case r of Inl e \<Rightarrow> True | Inr st' \<Rightarrow> n \<le> length (ev_infos st')) \<and>
         (\<forall>i < 0. \<exists>st_i. eval_iter ops ags i st = Inr st_i \<and> length (ev_infos st_i) < n)"
      by simp
    then show ?thesis by blast
  next
    case True
    show ?thesis
    proof (cases "eval_step ops ags st")
      case (Inl e)
      with True 1(2) have "r = Inl e" by simp
      with Inl True have "eval_iter ops ags (Suc 0) st = r \<and>
         (case r of Inl e \<Rightarrow> True | Inr st' \<Rightarrow> n \<le> length (ev_infos st')) \<and>
         (\<forall>i < Suc 0. \<exists>st_i. eval_iter ops ags i st = Inr st_i \<and> length (ev_infos st_i) < n)"
        by simp
      then show ?thesis by blast
    next
      case (Inr st1)
      with True 1(2) have "loop ops ags n st1 = Some r" by simp
      from 1(1) [OF this] obtain k where k: "eval_iter ops ags k st1 = r"
        "case r of Inl e \<Rightarrow> True | Inr st' \<Rightarrow> n \<le> length (ev_infos st')"
        "\<forall>i < k. \<exists>st_i. eval_iter ops ags i st1 = Inr st_i \<and> length (ev_infos st_i) < n"
        by blast
      have "\<forall>i < Suc k. \<exists>st_i. eval_iter ops ags i st = Inr st_i \<and> length (ev_infos st_i) < n"
      proof (intro allI impI)
        fix i assume "i < Suc k"
        then show "\<exists>st_i. eval_iter ops ags i st = Inr st_i \<and> length (ev_infos st_i) < n"
          using k(3) True Inr by (cases i) simp_all
      qed
      moreover have "eval_iter ops ags (Suc k) st = r" using Inr k(1) by simp
      ultimately show ?thesis using k(2) by blast
    qed
  qed
qed

lemma eval_loop_iter_stop:
  "eval_iter ops ags k st = r \<Longrightarrow>
   (case r of Inl e \<Rightarrow> True | Inr st' \<Rightarrow> n \<le> length (ev_infos st')) \<Longrightarrow>
   (\<forall>i < k. \<exists>st_i. eval_iter ops ags i st = Inr st_i \<and> length (ev_infos st_i) < n) \<Longrightarrow>
   eval_loop ops ags n st = Some r"
proof (induction k arbitrary: st)
  case 0
  then show ?case by (subst eval_loop.simps) auto
next
  case (Suc k)
  from Suc.prems(3) have lt: "length (ev_infos st) < n" by fastforce
  show ?case
  proof (cases "eval_step ops ags st")
    case (Inl e)
    with Suc.prems(1) have "r = Inl e" by simp
    with Inl lt show ?thesis by (subst eval_loop.simps) simp
  next
    case (Inr st1)
    with Suc.prems(1) have it: "eval_iter ops ags k st1 = r" by simp
    have "\<forall>i < k. \<exists>st_i. eval_iter ops ags i st1 = Inr st_i \<and> length (ev_infos st_i) < n"
    proof (intro allI impI)
      fix i assume "i < k"
      then have "Suc i < Suc k" by simp
      with Suc.prems(3) obtain st_i where "eval_iter ops ags (Suc i) st = Inr st_i" "length (ev_infos st_i) < n"
        by blast
      with Inr show "\<exists>st_i. eval_iter ops ags i st1 = Inr st_i \<and> length (ev_infos st_i) < n" by simp
    qed
    from Suc.IH [OF it Suc.prems(2) this] have "eval_loop ops ags n st1 = Some r" .
    with Inr lt show ?thesis by (subst eval_loop.simps) simp
  qed
qed

lemma eval_loop_None:
  assumes "\<forall>k. \<exists>st_k. eval_iter ops ags k st = Inr st_k \<and> length (ev_infos st_k) < n"
  shows "eval_loop ops ags n st = None"
proof (rule ccontr)
  assume "eval_loop ops ags n st \<noteq> None"
  then obtain r where "eval_loop ops ags n st = Some r" by blast
  from eval_loop_Some_iter [OF this] obtain k where k: "eval_iter ops ags k st = r"
    "case r of Inl e \<Rightarrow> True | Inr st' \<Rightarrow> n \<le> length (ev_infos st')" by blast
  from assms obtain st_k where "eval_iter ops ags k st = Inr st_k" "length (ev_infos st_k) < n" by blast
  with k show False by auto
qed

lemma eval_init_sel:
  "ev_trace (eval_init ops cfg ags dir) =
     [MakeVecEnvs EvalEnvs (episodes_per_eval cfg) (Some dir), EnvReset EvalEnvs]"
  "ev_infos (eval_init ops cfg ags dir) = []"
  "ev_masks (eval_init ops cfg ags dir) = replicate (episodes_per_eval cfg) 0"
  "length (ev_hidden (eval_init ops cfg ags dir)) = length ags"
  by (simp_all add: eval_init_def split: prod.splits)

text \<open>What \<open>k\<close> rounds of the evaluation loop do when they return.\<close>

lemma eval_iter_Inr:
  "eval_iter ops ags k st = Inr st' \<Longrightarrow> length (ev_hidden st) = length ags \<Longrightarrow>
     (\<forall>d \<in> set (ev_infos st). d \<noteq> []) \<Longrightarrow>
     ev_masks st' = ev_masks st \<and> length (ev_hidden st') = length ags \<and>
     (\<forall>d \<in> set (ev_infos st'). d \<noteq> []) \<and>
     (\<exists>new. ev_trace st' = ev_trace st @ new \<and>
        length (filter is_env_step new) = k \<and>
        (\<forall>e \<in> set new. (\<exists>i ob h. e = Act i ob h (ev_masks st)) \<or> (\<exists>acts. e = EnvStep EvalEnvs acts)))"
proof (induction k arbitrary: st)
  case 0
  then show ?case by simp
next
  case (Suc k)
  from Suc.prems(1) obtain st1 where s1: "eval_step ops ags st = Inr st1"
    and it: "eval_iter ops ags k st1 = Inr st'"
    by (auto split: sum.splits)
  from eval_step_Inr [OF s1] Suc.prems(2) obtain acts infos where
    m1: "ev_masks st1 = ev_masks st" and h1: "length (ev_hidden st1) = length ags"
    and t1: "ev_trace st1 = ev_trace st @
          map (\<lambda>(a, h). Act (agent_id a) (ev_obs st ! agent_id a) h (ev_masks st)) (zip ags (ev_hidden st)) @
          [EnvStep EvalEnvs acts]"
    and i1: "ev_infos st1 = ev_infos st @ filter (\<lambda>i. i \<noteq> []) infos"
    by auto
  from i1 Suc.prems(3) have n1: "\<forall>d \<in> set (ev_infos st1). d \<noteq> []" by auto
  from Suc.IH [OF it h1 n1] obtain new where
    IH: "ev_masks st' = ev_masks st1" "length (ev_hidden st') = length ags"
      "\<forall>d \<in> set (ev_infos st'). d \<noteq> []"
      "ev_trace st' = ev_trace st1 @ new" "length (filter is_env_step new) = k"
      "\<forall>e \<in> set new. (\<exists>i ob h. e = Act i ob h (ev_masks st1)) \<or> (\<exists>acts. e = EnvStep EvalEnvs acts)"
    by blast
  let ?first = "map (\<lambda>(a, h). Act (agent_id a) (ev_obs st ! agent_id a) h (ev_masks st)) (zip ags (ev_hidden st)) @
          [EnvStep EvalEnvs acts]"
  have "ev_trace st' = ev_trace st @ (?first @ new)" using IH(4) t1 by simp
  moreover have "length (filter is_env_step (?first @ new)) = Suc k"
    using IH(5) by (simp add: filter_map comp_def split_def)
  moreover have "\<forall>e \<in> set (?first @ new). (\<exists>i ob h. e = Act i ob h (ev_masks st)) \<or> (\<exists>acts. e = EnvStep EvalEnvs acts)"
    using IH(6) m1 by auto
  ultimately have "\<exists>new. ev_trace st' = ev_trace st @ new \<and>
        length (filter is_env_step new) = Suc k \<and>
        (\<forall>e \<in> set new. (\<exists>i ob h. e = Act i ob h (ev_masks st)) \<or> (\<exists>acts. e = EnvStep EvalEnvs acts))"
    by blast
  with IH m1 show ?case by simp
qed

text \<open>When \<open>evaluate\<close> returns without an exception.\<close>

lemma evaluate_Inr:
  assumes "evaluate ops cfg ags dir = Some (Inr evs)"
  shows "\<exists>k st r. eval_iter ops ags k (eval_init ops cfg ags dir) = Inr st \<and>
     episodes_per_eval cfg \<le> length (ev_infos st) \<and>
     (\<forall>i < k. \<exists>st_i. eval_iter ops ags i (eval_init ops cfg ags dir) = Inr st_i \<and>
                     length (ev_infos st_i) < episodes_per_eval cfg) \<and>
     squash_info (ev_infos st) ''episode_reward'' = Some r \<and>
     evs = ev_trace st @ [EnvClose EvalEnvs, LogEval (length (ev_infos st)) r]"
proof -
  from assms obtain st where l: "eval_loop ops ags (episodes_per_eval cfg) (eval_init ops cfg ags dir) = Some (Inr st)"
    and f: "eval_finish st = Inr evs"
    by (auto simp: evaluate_def split: option.splits sum.splits)
  from eval_loop_Some_iter [OF l] obtain k where
    k: "eval_iter ops ags k (eval_init ops cfg ags dir) = Inr st"
       "episodes_per_eval cfg \<le> length (ev_infos st)"
       "\<forall>i < k. \<exists>st_i. eval_iter ops ags i (eval_init ops cfg ags dir) = Inr st_i \<and>
                     length (ev_infos st_i) < episodes_per_eval cfg"
    by auto
  from f obtain r where "squash_info (ev_infos st) ''episode_reward'' = Some r"
     "evs = ev_trace st @ [EnvClose EvalEnvs, LogEval (length (ev_infos st)) r]"
    by (auto simp: eval_finish_def split: option.splits)
  with k show ?thesis by blast
qed


text \<open>The evaluation round, in full.\<close>

lemma eval_inputs_eq:
  "eval_inputs ags st =
     (if \<exists>(a, h) \<in> set (zip ags (ev_hidden st)). length (ev_obs st) \<le> agent_id a
      then Inl IndexError
      else Inr (map (\<lambda>(a, h). (a, ev_obs st ! agent_id a, h)) (zip ags (ev_hidden st))))"
proof -
  have "comprehension
       (\<lambda>(a, h). case index obs (agent_id a) of Inl e \<Rightarrow> Inl e | Inr ob \<Rightarrow> Inr (a, ob, h)) xs =
     (if \<exists>(a, h) \<in> set xs. length obs \<le> agent_id a
      then Inl IndexError
      else Inr (map (\<lambda>(a, h). (a, obs ! agent_id a, h)) xs))"
    for obs :: "'c list" and xs :: "(('a, 'b) agent \<times> 'c) list"
  proof (induction xs)
    case Nil
    then show ?case by simp
  next
    case (Cons x xs)
    obtain a h where x: "x = (a, h)" by (cases x)
    show ?case
    proof (cases "agent_id a < length obs")
      case True
      with Cons x show ?thesis by (simp add: index_def)
    next
      case False
      with x show ?thesis by (simp add: index_def)
    qed
  qed
  then show ?thesis by (simp add: eval_inputs_def)
qed

lemma eval_step_eq:
  "eval_step ops ags st =
     (if \<exists>(a, h) \<in> set (zip ags (ev_hidden st)). length (ev_obs st) \<le> agent_id a
      then Inl IndexError
      else if zip ags (ev_hidden st) = [] then Inl ValueError
      else
        (case env_step ops (ev_envs st) (eval_actions ops ags st) of
           (envs', obs, reward, dn, infos) \<Rightarrow>
             Inr (st\<lparr>ev_envs := envs',
                     ev_obs := obs,
                     ev_hidden := map (\<lambda>(value, action, lp, rhs). rhs) (eval_outputs ops ags st),
                     ev_n_masks := Some (masks_of dn),
                     ev_infos := ev_infos st @ filter (\<lambda>i. i \<noteq> []) infos,
                     ev_trace := ev_trace st @
                       map (\<lambda>(a, h). Act (agent_id a) (ev_obs st ! agent_id a) h (ev_masks st))
                         (zip ags (ev_hidden st)) @
                       [EnvStep EvalEnvs (eval_actions ops ags st)]\<rparr>)))"
proof -
  let ?ins = "map (\<lambda>(a, h). (a, ev_obs st ! agent_id a, h)) (zip ags (ev_hidden st))"
  have o: "map (\<lambda>(a, ob, h). act ops (model a) ob h (ev_masks st)) ?ins = eval_outputs ops ags st"
    by (simp add: eval_outputs_def comp_def split_def)
  have e: "map (\<lambda>(a, ob, h). Act (agent_id a) ob h (ev_masks st)) ?ins =
       map (\<lambda>(a, h). Act (agent_id a) (ev_obs st ! agent_id a) h (ev_masks st)) (zip ags (ev_hidden st))"
    by (simp add: comp_def split_def)
  have n: "eval_outputs ops ags st = [] \<longleftrightarrow> zip ags (ev_hidden st) = []"
    by (simp add: eval_outputs_def)
  show ?thesis
  proof (cases "\<exists>(a, h) \<in> set (zip ags (ev_hidden st)). length (ev_obs st) \<le> agent_id a")
    case True
    then have "eval_inputs ags st = Inl IndexError"
      by (simp add: eval_inputs_eq)
    with True show ?thesis
      by (simp add: eval_step_def)
  next
    case False
    then have ins: "eval_inputs ags st = Inr ?ins"
      by (simp add: eval_inputs_eq)
    have "eval_step ops ags st =
       (if eval_outputs ops ags st = [] then Inl ValueError
        else
          (case env_step ops (ev_envs st) (eval_actions ops ags st) of
             (envs', obs, reward, dn, infos) \<Rightarrow>
               Inr (st\<lparr>ev_envs := envs',
                       ev_obs := obs,
                       ev_hidden := map (\<lambda>(value, action, lp, rhs). rhs) (eval_outputs ops ags st),
                       ev_n_masks := Some (masks_of dn),
                       ev_infos := ev_infos st @ filter (\<lambda>i. i \<noteq> []) infos,
                       ev_trace := ev_trace st @
                         map (\<lambda>(a, h). Act (agent_id a) (ev_obs st ! agent_id a) h (ev_masks st))
                           (zip ags (ev_hidden st)) @
                         [EnvStep EvalEnvs (eval_actions ops ags st)]\<rparr>)))"
      unfolding eval_step_def ins sum.case Let_def o e eval_actions_def ..
    with False show ?thesis
      unfolding n by (simp only: if_False)
  qed
qed

lemma eval_iter_snoc:
  "eval_iter ops ags (Suc k) st =
     (case eval_iter ops ags k st of Inl e \<Rightarrow> Inl e | Inr st1 \<Rightarrow> eval_step ops ags st1)"
proof (induction k arbitrary: st)
  case 0
  then show ?case by (simp split: sum.splits)
next
  case (Suc k)
  show ?case
  proof (cases "eval_step ops ags st")
    case (Inl e)
    then show ?thesis by simp
  next
    case (Inr st1)
    have "eval_iter ops ags (Suc (Suc k)) st = eval_iter ops ags (Suc k) st1"
      using Inr by simp
    also have "\<dots> = (case eval_iter ops ags k st1 of Inl e \<Rightarrow> Inl e | Inr st2 \<Rightarrow> eval_step ops ags st2)"
      by (rule Suc.IH)
    also have "\<dots> = (case eval_iter ops ags (Suc k) st of Inl e \<Rightarrow> Inl e | Inr st2 \<Rightarrow> eval_step ops ags st2)"
      using Inr by simp
    finally show ?thesis .
  qed
qed

lemma eval_init_eq:
  "ev_envs (eval_init ops cfg ags dir) =
     fst (env_reset ops (make_vec_envs ops (episodes_per_eval cfg) (Some dir)))"
  "ev_obs (eval_init ops cfg ags dir) =
     snd (env_reset ops (make_vec_envs ops (episodes_per_eval cfg) (Some dir)))"
  "ev_hidden (eval_init ops cfg ags dir) =
     map (\<lambda>a. hidden_zeros ops (episodes_per_eval cfg) (model a)) ags"
  "ev_n_masks (eval_init ops cfg ags dir) = None"
  by (simp_all add: eval_init_def split: prod.splits)

text \<open>\<open>evaluate\<close> when the loop stops after \<open>k\<close> rounds.\<close>

lemma evaluate_at_stop:
  assumes it: "eval_iter ops ags k (eval_init ops cfg ags dir) = Inr st"
      and ge: "episodes_per_eval cfg \<le> length (ev_infos st)"
      and lt: "\<forall>i < k. \<exists>st_i. eval_iter ops ags i (eval_init ops cfg ags dir) = Inr st_i \<and>
                      length (ev_infos st_i) < episodes_per_eval cfg"
  shows "evaluate ops cfg ags dir =
        (case squash_info (ev_infos st) ''episode_reward'' of
           None \<Rightarrow> Some (Inl KeyError)
         | Some r \<Rightarrow> Some (Inr (ev_trace st @ [EnvClose EvalEnvs, LogEval (length (ev_infos st)) r])))"
proof -
  from eval_loop_iter_stop [OF it _ lt] ge
  have "eval_loop ops ags (episodes_per_eval cfg) (eval_init ops cfg ags dir) = Some (Inr st)"
    by simp
  then show ?thesis
    by (simp add: evaluate_def eval_finish_def split: option.splits)
qed

lemma eval_step_strong:
  assumes "eval_step ops ags st = Inr st'"
  shows "(\<forall>(a, h) \<in> set (zip ags (ev_hidden st)). agent_id a < length (ev_obs st)) \<and>
         zip ags (ev_hidden st) \<noteq> [] \<and>
         (case env_step ops (ev_envs st) (eval_actions ops ags st) of
            (envs', obs, reward, dn, infos) \<Rightarrow>
              st' = st\<lparr>ev_envs := envs',
                       ev_obs := obs,
                       ev_hidden := map (\<lambda>(value, action, lp, rhs). rhs) (eval_outputs ops ags st),
                       ev_n_masks := Some (masks_of dn),
                       ev_infos := ev_infos st @ filter (\<lambda>i. i \<noteq> []) infos,
                       ev_trace := ev_trace st @
                         map (\<lambda>(a, h). Act (agent_id a) (ev_obs st ! agent_id a) h (ev_masks st))
                           (zip ags (ev_hidden st)) @
                         [EnvStep EvalEnvs (eval_actions ops ags st)]\<rparr>)"
proof -
  let ?bad = "\<exists>(a, h) \<in> set (zip ags (ev_hidden st)). length (ev_obs st) \<le> agent_id a"
  from assms have nb: "\<not> ?bad"
    by (subst (asm) eval_step_eq) (simp split: if_splits)
  from assms nb have ne: "zip ags (ev_hidden st) \<noteq> []"
    by (subst (asm) eval_step_eq) (simp split: if_splits)
  from nb have r: "\<forall>(a, h) \<in> set (zip ags (ev_hidden st)). agent_id a < length (ev_obs st)"
    by (auto simp: not_le)
  obtain envs' obs reward dn infos where
    es: "env_step ops (ev_envs st) (eval_actions ops ags st) = (envs', obs, reward, dn, infos)"
    by (rule prod_cases5)
  from assms nb ne es have
    "st' = st\<lparr>ev_envs := envs',
              ev_obs := obs,
              ev_hidden := map (\<lambda>(value, action, lp, rhs). rhs) (eval_outputs ops ags st),
              ev_n_masks := Some (masks_of dn),
              ev_infos := ev_infos st @ filter (\<lambda>i. i \<noteq> []) infos,
              ev_trace := ev_trace st @
                map (\<lambda>(a, h). Act (agent_id a) (ev_obs st ! agent_id a) h (ev_masks st))
                  (zip ags (ev_hidden st)) @
                [EnvStep EvalEnvs (eval_actions ops ags st)]\<rparr>"
    by (subst (asm) eval_step_eq) (simp only: if_False es prod.case sum.inject)
  with r ne es show ?thesis by (simp only: prod.case simp_thms)
qed

lemma eval_init_record:
  "eval_init ops cfg ags dir =
     \<lparr>ev_envs = fst (env_reset ops (make_vec_envs ops (episodes_per_eval cfg) (Some dir))),
      ev_obs = snd (env_reset ops (make_vec_envs ops (episodes_per_eval cfg) (Some dir))),
      ev_hidden = map (\<lambda>a. hidden_zeros ops (episodes_per_eval cfg) (model a)) ags,
      ev_masks = replicate (episodes_per_eval cfg) 0,
      ev_n_masks = None,
      ev_infos = [],
      ev_trace = [MakeVecEnvs EvalEnvs (episodes_per_eval cfg) (Some dir), EnvReset EvalEnvs]\<rparr>"
  by (simp add: eval_init_def split: prod.splits)

lemma eval_actions_eq:
  "eval_actions ops ags st =
     map (\<lambda>(a, h). case act ops (model a) (ev_obs st ! agent_id a) h (ev_masks st) of
                      (value, action, lp, rhs) \<Rightarrow> action)
       (zip ags (ev_hidden st))"
  by (simp add: eval_actions_def eval_outputs_def comp_def split_def)

lemma eval_stop_facts:
  assumes it: "eval_iter ops ags k (eval_init ops cfg ags dir) = Inr st"
  shows "length (filter is_env_step (ev_trace st)) = k \<and>
      (\<forall>d \<in> set (ev_infos st). d \<noteq> []) \<and>
      length (ev_hidden st) = length ags"
proof -
  from eval_iter_Inr [OF it] obtain new where
    n: "length (ev_hidden st) = length ags" "\<forall>d \<in> set (ev_infos st). d \<noteq> []"
      "ev_trace st = ev_trace (eval_init ops cfg ags dir) @ new" "length (filter is_env_step new) = k"
    by (auto simp: eval_init_sel)
  from n(3,4) have "length (filter is_env_step (ev_trace st)) = k"
    by (simp add: eval_init_sel)
  with n show ?thesis by simp
qed

text \<open>
  Claim C4. \<open>evaluate\<close> makes a new vectorized environment of exactly
  \<open>episodes_per_eval\<close> instances and resets it: the environment and the observations
  with which the loop starts are what \<open>reset\<close> returns for the environment that
  \<open>make_vec_envs\<close> made. Every round of its loop hands each agent's policy the
  observation of that agent, steps that environment once with the actions the policies
  chose, goes on with the environment and the observations that this step returned, and
  appends the non-empty info dictionaries that this step returned. The loop stops after
  the first round at whose end at least \<open>episodes_per_eval\<close> info dictionaries have been
  collected; \<open>evaluate\<close> then closes the environment and reports the number of collected
  dictionaries and the squashed mean of \<open>"episode_reward"\<close> (looking it up raises
  \<open>KeyError\<close> when no collected dictionary has it). If no round ever ends with
  \<open>episodes_per_eval\<close> collected dictionaries, \<open>evaluate\<close> does not return.
\<close>

theorem evaluate_loop:
  "eval_init ops cfg ags dir =
     \<lparr>ev_envs = fst (env_reset ops (make_vec_envs ops (episodes_per_eval cfg) (Some dir))),
      ev_obs = snd (env_reset ops (make_vec_envs ops (episodes_per_eval cfg) (Some dir))),
      ev_hidden = map (\<lambda>a. hidden_zeros ops (episodes_per_eval cfg) (model a)) ags,
      ev_masks = replicate (episodes_per_eval cfg) 0,
      ev_n_masks = None,
      ev_infos = [],
      ev_trace = [MakeVecEnvs EvalEnvs (episodes_per_eval cfg) (Some dir), EnvReset EvalEnvs]\<rparr> \<and>
   (\<forall>st. eval_actions ops ags st =
      map (\<lambda>(a, h). case act ops (model a) (ev_obs st ! agent_id a) h (ev_masks st) of
                       (value, action, lp, rhs) \<Rightarrow> action)
        (zip ags (ev_hidden st))) \<and>
   (\<forall>st st'. eval_step ops ags st = Inr st' \<longrightarrow>
      (\<forall>(a, h) \<in> set (zip ags (ev_hidden st)). agent_id a < length (ev_obs st)) \<and>
      zip ags (ev_hidden st) \<noteq> [] \<and>
      (case env_step ops (ev_envs st) (eval_actions ops ags st) of
         (envs', obs, reward, dn, infos) \<Rightarrow>
           st' = st\<lparr>ev_envs := envs',
                    ev_obs := obs,
                    ev_hidden := map (\<lambda>(value, action, lp, rhs). rhs) (eval_outputs ops ags st),
                    ev_n_masks := Some (masks_of dn),
                    ev_infos := ev_infos st @ filter (\<lambda>i. i \<noteq> []) infos,
                    ev_trace := ev_trace st @
                      map (\<lambda>(a, h). Act (agent_id a) (ev_obs st ! agent_id a) h (ev_masks st))
                        (zip ags (ev_hidden st)) @
                      [EnvStep EvalEnvs (eval_actions ops ags st)]\<rparr>)) \<and>
   (\<forall>k. eval_iter ops ags (Suc k) (eval_init ops cfg ags dir) =
      (case eval_iter ops ags k (eval_init ops cfg ags dir) of
         Inl e \<Rightarrow> Inl e
       | Inr st \<Rightarrow> eval_step ops ags st)) \<and>
   ((\<forall>k. \<exists>st. eval_iter ops ags k (eval_init ops cfg ags dir) = Inr st \<and>
              length (ev_infos st) < episodes_per_eval cfg)
      \<longrightarrow> evaluate ops cfg ags dir = None) \<and>
   (\<forall>k st.
      eval_iter ops ags k (eval_init ops cfg ags dir) = Inr st \<and>
      episodes_per_eval cfg \<le> length (ev_infos st) \<and>
      (\<forall>i < k. \<exists>st_i. eval_iter ops ags i (eval_init ops cfg ags dir) = Inr st_i \<and>
                      length (ev_infos st_i) < episodes_per_eval cfg)
      \<longrightarrow>
      length (filter is_env_step (ev_trace st)) = k \<and>
      (\<forall>d \<in> set (ev_infos st). d \<noteq> []) \<and>
      length (ev_hidden st) = length ags \<and>
      evaluate ops cfg ags dir =
        (case squash_info (ev_infos st) ''episode_reward'' of
           None \<Rightarrow> Some (Inl KeyError)
         | Some r \<Rightarrow> Some (Inr (ev_trace st @ [EnvClose EvalEnvs, LogEval (length (ev_infos st)) r])))) \<and>
   (\<forall>evs. evaluate ops cfg ags dir = Some (Inr evs) \<longrightarrow>
      (\<exists>k st r.
         eval_iter ops ags k (eval_init ops cfg ags dir) = Inr st \<and>
         episodes_per_eval cfg \<le> length (ev_infos st) \<and>
         (\<forall>i < k. \<exists>st_i. eval_iter ops ags i (eval_init ops cfg ags dir) = Inr st_i \<and>
                         length (ev_infos st_i) < episodes_per_eval cfg) \<and>
         squash_info (ev_infos st) ''episode_reward'' = Some r \<and>
         evs = ev_trace st @ [EnvClose EvalEnvs, LogEval (length (ev_infos st)) r]))"
proof -
  let ?st0 = "eval_init ops cfg ags dir"
  let ?E = "episodes_per_eval cfg"
  have b: "\<forall>st. eval_actions ops ags st =
      map (\<lambda>(a, h). case act ops (model a) (ev_obs st ! agent_id a) h (ev_masks st) of
                       (value, action, lp, rhs) \<Rightarrow> action)
        (zip ags (ev_hidden st))"
    by (intro allI) (rule eval_actions_eq)
  have c: "\<forall>st st'. eval_step ops ags st = Inr st' \<longrightarrow>
      (\<forall>(a, h) \<in> set (zip ags (ev_hidden st)). agent_id a < length (ev_obs st)) \<and>
      zip ags (ev_hidden st) \<noteq> [] \<and>
      (case env_step ops (ev_envs st) (eval_actions ops ags st) of
         (envs', obs, reward, dn, infos) \<Rightarrow>
           st' = st\<lparr>ev_envs := envs',
                    ev_obs := obs,
                    ev_hidden := map (\<lambda>(value, action, lp, rhs). rhs) (eval_outputs ops ags st),
                    ev_n_masks := Some (masks_of dn),
                    ev_infos := ev_infos st @ filter (\<lambda>i. i \<noteq> []) infos,
                    ev_trace := ev_trace st @
                      map (\<lambda>(a, h). Act (agent_id a) (ev_obs st ! agent_id a) h (ev_masks st))
                        (zip ags (ev_hidden st)) @
                      [EnvStep EvalEnvs (eval_actions ops ags st)]\<rparr>)"
    by (intro allI impI) (rule eval_step_strong)
  have d: "\<forall>k. eval_iter ops ags (Suc k) ?st0 =
      (case eval_iter ops ags k ?st0 of
         Inl e \<Rightarrow> Inl e
       | Inr st \<Rightarrow> eval_step ops ags st)"
    by (intro allI) (rule eval_iter_snoc)
  have e: "(\<forall>k. \<exists>st. eval_iter ops ags k ?st0 = Inr st \<and> length (ev_infos st) < ?E)
      \<longrightarrow> evaluate ops cfg ags dir = None"
    by (simp add: evaluate_def eval_loop_None)
  have f: "\<forall>k st.
      eval_iter ops ags k ?st0 = Inr st \<and> ?E \<le> length (ev_infos st) \<and>
      (\<forall>i < k. \<exists>st_i. eval_iter ops ags i ?st0 = Inr st_i \<and> length (ev_infos st_i) < ?E)
      \<longrightarrow>
      length (filter is_env_step (ev_trace st)) = k \<and>
      (\<forall>d \<in> set (ev_infos st). d \<noteq> []) \<and>
      length (ev_hidden st) = length ags \<and>
      evaluate ops cfg ags dir =
        (case squash_info (ev_infos st) ''episode_reward'' of
           None \<Rightarrow> Some (Inl KeyError)
         | Some r \<Rightarrow> Some (Inr (ev_trace st @ [EnvClose EvalEnvs, LogEval (length (ev_infos st)) r])))"
  proof (intro allI impI, elim conjE)
    fix k st
    assume it: "eval_iter ops ags k ?st0 = Inr st" and ge: "?E \<le> length (ev_infos st)"
      and lt: "\<forall>i < k. \<exists>st_i. eval_iter ops ags i ?st0 = Inr st_i \<and> length (ev_infos st_i) < ?E"
    note p = eval_stop_facts [OF it]
    note q = evaluate_at_stop [OF it ge lt]
    from p have p1: "length (filter is_env_step (ev_trace st)) = k" by (rule conjunct1)
    from p have p2: "\<forall>d \<in> set (ev_infos st). d \<noteq> []" by (elim conjE)
    from p have p3: "length (ev_hidden st) = length ags" by (elim conjE)
    show "length (filter is_env_step (ev_trace st)) = k \<and>
      (\<forall>d \<in> set (ev_infos st). d \<noteq> []) \<and>
      length (ev_hidden st) = length ags \<and>
      evaluate ops cfg ags dir =
        (case squash_info (ev_infos st) ''episode_reward'' of
           None \<Rightarrow> Some (Inl KeyError)
         | Some r \<Rightarrow> Some (Inr (ev_trace st @ [EnvClose EvalEnvs, LogEval (length (ev_infos st)) r])))"
      by (rule conjI [OF p1 conjI [OF p2 conjI [OF p3 q]]])
  qed
  have g: "\<forall>evs. evaluate ops cfg ags dir = Some (Inr evs) \<longrightarrow>
      (\<exists>k st r.
         eval_iter ops ags k ?st0 = Inr st \<and> ?E \<le> length (ev_infos st) \<and>
         (\<forall>i < k. \<exists>st_i. eval_iter ops ags i ?st0 = Inr st_i \<and> length (ev_infos st_i) < ?E) \<and>
         squash_info (ev_infos st) ''episode_reward'' = Some r \<and>
         evs = ev_trace st @ [EnvClose EvalEnvs, LogEval (length (ev_infos st)) r])"
    by (intro allI impI) (rule evaluate_Inr)
  show ?thesis
    by (rule conjI [OF eval_init_record conjI [OF b conjI [OF c conjI [OF d conjI [OF e conjI [OF f g]]]]]])
qed

lemmas toy_eval_defs =
  eval_init_def eval_step_def eval_inputs_def index_def toy_ops_def toy_cfg_def
  toy_agents_def toy_infos_def masks_of_def Let_def

lemma toy_eval_iter1:
  "\<exists>st. eval_iter toy_ops toy_agents 1 (eval_init toy_ops toy_cfg toy_agents dir) = Inr st \<and>
        length (ev_infos st) = 2"
  by (simp add: toy_eval_defs)

lemma toy_eval_iter2:
  "\<exists>st. eval_iter toy_ops toy_agents 2 (eval_init toy_ops toy_cfg toy_agents dir) = Inr st \<and>
        ev_infos st = [toy_infos ! 0, toy_infos ! 1, toy_infos ! 0, toy_infos ! 1] \<and>
        ev_trace st =
          [MakeVecEnvs EvalEnvs 3 (Some dir), EnvReset EvalEnvs,
           Act 0 0 0 [0, 0, 0], Act 1 0 0 [0, 0, 0], EnvStep EvalEnvs [0, 1],
           Act 0 0 1 [0, 0, 0], Act 1 0 1 [0, 0, 0], EnvStep EvalEnvs [0, 1]]"
  by (simp add: toy_eval_defs numeral_2_eq_2 numeral_3_eq_3)

lemma squash_toy_eval:
  "squash_info [toy_infos ! 0, toy_infos ! 1, toy_infos ! 0, toy_infos ! 1] ''episode_reward'' = Some (11 / 2)"
  by (simp add: squash_info_apply squash_mean_def np_mean_def has_key_def truncated_key_def toy_infos_def)

lemma toy_before:
  "\<forall>i < 2. \<exists>st_i. eval_iter toy_ops toy_agents i (eval_init toy_ops toy_cfg toy_agents dir) = Inr st_i \<and>
                      length (ev_infos st_i) < episodes_per_eval toy_cfg"
proof (intro allI impI)
  fix i :: nat assume "i < 2"
  then consider "i = 0" | "i = 1" by linarith
  then show "\<exists>st_i. eval_iter toy_ops toy_agents i (eval_init toy_ops toy_cfg toy_agents dir) = Inr st_i \<and>
                      length (ev_infos st_i) < episodes_per_eval toy_cfg"
  proof cases
    case 1
    then show ?thesis by (simp add: eval_init_sel toy_cfg_def)
  next
    case 2
    from toy_eval_iter1 [of dir] obtain st where
      "eval_iter toy_ops toy_agents 1 (eval_init toy_ops toy_cfg toy_agents dir) = Inr st"
      "length (ev_infos st) = 2" by blast
    with 2 show ?thesis by (simp add: toy_cfg_def)
  qed
qed

text \<open>The whole run of \<open>evaluate\<close> on the small instance: two rounds.\<close>

lemma toy_evaluate:
  "evaluate toy_ops toy_cfg toy_agents dir =
     Some (Inr [MakeVecEnvs EvalEnvs 3 (Some dir), EnvReset EvalEnvs,
                Act 0 0 0 [0, 0, 0], Act 1 0 0 [0, 0, 0], EnvStep EvalEnvs [0, 1],
                Act 0 0 1 [0, 0, 0], Act 1 0 1 [0, 0, 0], EnvStep EvalEnvs [0, 1],
                EnvClose EvalEnvs, LogEval 4 (11 / 2)])"
proof -
  let ?st0 = "eval_init toy_ops toy_cfg toy_agents dir"
  from toy_eval_iter2 [of dir] obtain st2 where
    st2: "eval_iter toy_ops toy_agents 2 ?st0 = Inr st2"
      "ev_infos st2 = [toy_infos ! 0, toy_infos ! 1, toy_infos ! 0, toy_infos ! 1]"
      "ev_trace st2 =
          [MakeVecEnvs EvalEnvs 3 (Some dir), EnvReset EvalEnvs,
           Act 0 0 0 [0, 0, 0], Act 1 0 0 [0, 0, 0], EnvStep EvalEnvs [0, 1],
           Act 0 0 1 [0, 0, 0], Act 1 0 1 [0, 0, 0], EnvStep EvalEnvs [0, 1]]"
    by blast
  have ge: "episodes_per_eval toy_cfg \<le> length (ev_infos st2)"
    by (simp add: toy_cfg_def st2(2))
  from evaluate_at_stop [OF st2(1) ge toy_before]
  show ?thesis
    unfolding st2(2) squash_toy_eval st2(3) by simp
qed

lemma silent_step:
  assumes "ev_obs st = [a, b]" and "ev_hidden st = [c, d]" and "ev_infos st = []"
  shows "\<exists>st1. eval_step silent_ops toy_agents st = Inr st1 \<and>
           length (ev_obs st1) = 2 \<and> length (ev_hidden st1) = 2 \<and> ev_infos st1 = []"
  using assms
  by (simp add: eval_step_def eval_inputs_def index_def silent_ops_def toy_ops_def toy_agents_def Let_def)

lemma silent_eval_iter:
  "length (ev_obs st) = 2 \<Longrightarrow> length (ev_hidden st) = 2 \<Longrightarrow> ev_infos st = [] \<Longrightarrow>
     \<exists>st'. eval_iter silent_ops toy_agents k st = Inr st' \<and> ev_infos st' = []"
proof (induction k arbitrary: st)
  case 0
  then show ?case by simp
next
  case (Suc k)
  from Suc.prems obtain a b c d where ob: "ev_obs st = [a, b]" and hd: "ev_hidden st = [c, d]"
    by (auto simp: length_Suc_conv numeral_2_eq_2)
  from silent_step [OF ob hd Suc.prems(3)] obtain st1 where
    s1: "eval_step silent_ops toy_agents st = Inr st1"
    and p: "length (ev_obs st1) = 2" "length (ev_hidden st1) = 2" "ev_infos st1 = []"
    by blast
  from Suc.IH [OF p] s1 show ?case by simp
qed

lemma silent_never:
  "\<forall>k. \<exists>st. eval_iter silent_ops toy_agents k (eval_init silent_ops toy_cfg toy_agents dir) = Inr st \<and>
              length (ev_infos st) < episodes_per_eval toy_cfg"
proof
  fix k
  let ?sl0 = "eval_init silent_ops toy_cfg toy_agents dir"
  have init: "length (ev_obs ?sl0) = 2" "length (ev_hidden ?sl0) = 2" "ev_infos ?sl0 = []"
    by (simp_all add: eval_init_def silent_ops_def toy_ops_def toy_agents_def)
  from silent_eval_iter [OF init, of k] obtain st where
    "eval_iter silent_ops toy_agents k ?sl0 = Inr st" "ev_infos st = []" by blast
  then show "\<exists>st. eval_iter silent_ops toy_agents k ?sl0 = Inr st \<and>
              length (ev_infos st) < episodes_per_eval toy_cfg"
    by (simp add: toy_cfg_def)
qed

lemmas probe_eval_defs =
  eval_init_def eval_step_def eval_inputs_def index_def probe_ops_def toy_ops_def toy_cfg_def
  toy_agents_def toy_infos_def masks_of_def Let_def

lemma probe_step1:
  "\<exists>st. eval_step probe_ops toy_agents (eval_init probe_ops toy_cfg toy_agents ''ev/u2'') = Inr st"
  by (simp add: probe_eval_defs)

lemma probe_eval_iter1:
  "\<exists>st. eval_iter probe_ops toy_agents 1 (eval_init probe_ops toy_cfg toy_agents ''ev/u2'') = Inr st \<and>
        length (ev_infos st) = 0"
  by (simp add: probe_eval_defs)

lemma probe_eval_iter2:
  "\<exists>st. eval_iter probe_ops toy_agents 2 (eval_init probe_ops toy_cfg toy_agents ''ev/u2'') = Inr st \<and>
        length (ev_infos st) = 2"
  by (simp add: probe_eval_defs numeral_2_eq_2)

lemma probe_eval_iter3:
  "\<exists>st. eval_iter probe_ops toy_agents 3 (eval_init probe_ops toy_cfg toy_agents ''ev/u2'') = Inr st \<and>
        ev_infos st = [toy_infos ! 0, toy_infos ! 1, toy_infos ! 0, toy_infos ! 1] \<and>
        ev_trace st =
          [MakeVecEnvs EvalEnvs 3 (Some ''ev/u2''), EnvReset EvalEnvs,
           Act 0 7 0 [0, 0, 0], Act 1 7 0 [0, 0, 0], EnvStep EvalEnvs [0, 1],
           Act 0 31 1 [0, 0, 0], Act 1 31 1 [0, 0, 0], EnvStep EvalEnvs [0, 1],
           Act 0 32 2 [0, 0, 0], Act 1 32 2 [0, 0, 0], EnvStep EvalEnvs [0, 1]]"
  by (simp add: probe_eval_defs numeral_2_eq_2 numeral_3_eq_3)

lemma probe_before:
  "\<forall>i < 3. \<exists>st_i. eval_iter probe_ops toy_agents i (eval_init probe_ops toy_cfg toy_agents ''ev/u2'') = Inr st_i \<and>
                      length (ev_infos st_i) < episodes_per_eval toy_cfg"
proof (intro allI impI)
  fix i :: nat assume "i < 3"
  then consider "i = 0" | "i = 1" | "i = 2" by linarith
  then show "\<exists>st_i. eval_iter probe_ops toy_agents i (eval_init probe_ops toy_cfg toy_agents ''ev/u2'') = Inr st_i \<and>
                      length (ev_infos st_i) < episodes_per_eval toy_cfg"
  proof cases
    case 1
    then show ?thesis by (simp add: eval_init_sel toy_cfg_def)
  next
    case 2
    from probe_eval_iter1 obtain st where
      "eval_iter probe_ops toy_agents 1 (eval_init probe_ops toy_cfg toy_agents ''ev/u2'') = Inr st"
      "length (ev_infos st) = 0" by blast
    with 2 show ?thesis by (simp add: toy_cfg_def)
  next
    case 3
    from probe_eval_iter2 obtain st where
      "eval_iter probe_ops toy_agents 2 (eval_init probe_ops toy_cfg toy_agents ''ev/u2'') = Inr st"
      "length (ev_infos st) = 2" by blast
    with 3 show ?thesis by (simp add: toy_cfg_def)
  qed
qed

theorem evaluate_loop_witness:
  "ev_envs (eval_init probe_ops toy_cfg toy_agents ''ev/u2'') = 31 \<and>
   ev_obs (eval_init probe_ops toy_cfg toy_agents ''ev/u2'') = [7, 7] \<and>
   eval_step probe_ops toy_agents (eval_init probe_ops toy_cfg toy_agents ''ev/u2'') =
     Inr \<lparr>ev_envs = 32, ev_obs = [31, 31], ev_hidden = [1, 1], ev_masks = [0, 0, 0],
          ev_n_masks = Some [0, 0, 1], ev_infos = [],
          ev_trace = [MakeVecEnvs EvalEnvs 3 (Some ''ev/u2''), EnvReset EvalEnvs,
                      Act 0 7 0 [0, 0, 0], Act 1 7 0 [0, 0, 0], EnvStep EvalEnvs [0, 1]]\<rparr> \<and>
   evaluate probe_ops toy_cfg toy_agents ''ev/u2'' =
     Some (Inr [MakeVecEnvs EvalEnvs 3 (Some ''ev/u2''), EnvReset EvalEnvs,
                Act 0 7 0 [0, 0, 0], Act 1 7 0 [0, 0, 0], EnvStep EvalEnvs [0, 1],
                Act 0 31 1 [0, 0, 0], Act 1 31 1 [0, 0, 0], EnvStep EvalEnvs [0, 1],
                Act 0 32 2 [0, 0, 0], Act 1 32 2 [0, 0, 0], EnvStep EvalEnvs [0, 1],
                EnvClose EvalEnvs, LogEval 4 (11 / 2)]) \<and>
   evaluate silent_ops toy_cfg toy_agents ''ev/u2'' = None"
proof -
  let ?p0 = "eval_init probe_ops toy_cfg toy_agents ''ev/u2''"
  note T = evaluate_loop [of probe_ops toy_cfg toy_agents "''ev/u2''"]
  note T_init = T [THEN conjunct1]
  note T_step = T [THEN conjunct2, THEN conjunct2, THEN conjunct1, rule_format]
  note T_stop = T [THEN conjunct2, THEN conjunct2, THEN conjunct2, THEN conjunct2, THEN conjunct2,
                   THEN conjunct1, rule_format]
  from arg_cong [OF T_init, of ev_envs] have one: "ev_envs ?p0 = 31"
    by (simp add: probe_ops_def toy_ops_def toy_cfg_def)
  from arg_cong [OF T_init, of ev_obs] have two: "ev_obs ?p0 = [7, 7]"
    by (simp add: probe_ops_def toy_ops_def toy_cfg_def)
  from probe_step1 obtain st1 where s1: "eval_step probe_ops toy_agents ?p0 = Inr st1" ..
  from T_step [OF s1, THEN conjunct2, THEN conjunct2]
  have "st1 =
     \<lparr>ev_envs = 32, ev_obs = [31, 31], ev_hidden = [1, 1], ev_masks = [0, 0, 0],
      ev_n_masks = Some [0, 0, 1], ev_infos = [],
      ev_trace = [MakeVecEnvs EvalEnvs 3 (Some ''ev/u2''), EnvReset EvalEnvs,
                  Act 0 7 0 [0, 0, 0], Act 1 7 0 [0, 0, 0], EnvStep EvalEnvs [0, 1]]\<rparr>"
    by (simp add: eval_actions_def eval_outputs_def eval_init_def probe_ops_def toy_ops_def
        toy_cfg_def toy_agents_def masks_of_def numeral_3_eq_3)
  with s1 have three: "eval_step probe_ops toy_agents ?p0 =
     Inr \<lparr>ev_envs = 32, ev_obs = [31, 31], ev_hidden = [1, 1], ev_masks = [0, 0, 0],
          ev_n_masks = Some [0, 0, 1], ev_infos = [],
          ev_trace = [MakeVecEnvs EvalEnvs 3 (Some ''ev/u2''), EnvReset EvalEnvs,
                      Act 0 7 0 [0, 0, 0], Act 1 7 0 [0, 0, 0], EnvStep EvalEnvs [0, 1]]\<rparr>"
    by simp
  from probe_eval_iter3 obtain st3 where
    st3: "eval_iter probe_ops toy_agents 3 ?p0 = Inr st3"
      "ev_infos st3 = [toy_infos ! 0, toy_infos ! 1, toy_infos ! 0, toy_infos ! 1]"
      "ev_trace st3 =
          [MakeVecEnvs EvalEnvs 3 (Some ''ev/u2''), EnvReset EvalEnvs,
           Act 0 7 0 [0, 0, 0], Act 1 7 0 [0, 0, 0], EnvStep EvalEnvs [0, 1],
           Act 0 31 1 [0, 0, 0], Act 1 31 1 [0, 0, 0], EnvStep EvalEnvs [0, 1],
           Act 0 32 2 [0, 0, 0], Act 1 32 2 [0, 0, 0], EnvStep EvalEnvs [0, 1]]"
    by blast
  have ge: "episodes_per_eval toy_cfg \<le> length (ev_infos st3)"
    by (simp add: toy_cfg_def st3(2))
  from st3(1) ge probe_before
  have "eval_iter probe_ops toy_agents 3 ?p0 = Inr st3 \<and>
      episodes_per_eval toy_cfg \<le> length (ev_infos st3) \<and>
      (\<forall>i < 3. \<exists>st_i. eval_iter probe_ops toy_agents i ?p0 = Inr st_i \<and>
                      length (ev_infos st_i) < episodes_per_eval toy_cfg)"
    by (intro conjI)
  from T_stop [OF this, THEN conjunct2, THEN conjunct2, THEN conjunct2]
  have four: "evaluate probe_ops toy_cfg toy_agents ''ev/u2'' =
     Some (Inr [MakeVecEnvs EvalEnvs 3 (Some ''ev/u2''), EnvReset EvalEnvs,
                Act 0 7 0 [0, 0, 0], Act 1 7 0 [0, 0, 0], EnvStep EvalEnvs [0, 1],
                Act 0 31 1 [0, 0, 0], Act 1 31 1 [0, 0, 0], EnvStep EvalEnvs [0, 1],
                Act 0 32 2 [0, 0, 0], Act 1 32 2 [0, 0, 0], EnvStep EvalEnvs [0, 1],
                EnvClose EvalEnvs, LogEval 4 (11 / 2)])"
    unfolding st3(2) squash_toy_eval st3(3) by simp
  note S = evaluate_loop [of silent_ops toy_cfg toy_agents "''ev/u2''"]
  from S [THEN conjunct2, THEN conjunct2, THEN conjunct2, THEN conjunct2, THEN conjunct1]
    silent_never [of "''ev/u2''"]
  have five: "evaluate silent_ops toy_cfg toy_agents ''ev/u2'' = None"
    by (rule mp)
  from one two three four five show ?thesis by (intro conjI)
qed

lemma eval_step_writes_n_masks:
  assumes "eval_step ops ags st = Inr st'"
  shows "\<exists>dn. ev_n_masks st' = Some (masks_of dn)"
proof -
  from assms obtain ins where ins: "eval_inputs ags st = Inr ins"
    by (auto simp: eval_step_def split: sum.splits)
  let ?outs = "map (\<lambda>(a, ob, h). act ops (model a) ob h (ev_masks st)) ins"
  let ?acts = "map (\<lambda>(value, action, lp, rhs). action) ?outs"
  obtain envs' obs reward dn infos where
    es: "env_step ops (ev_envs st) ?acts = (envs', obs, reward, dn, infos)"
    by (metis prod_cases5)
  from assms ins es have "ev_n_masks st' = Some (masks_of dn)"
    by (auto simp: eval_step_def Let_def split: if_splits)
  then show ?thesis by blast
qed

text \<open>
  Claim C9. In the evaluation loop the mask handed to \<open>act\<close> is, for every agent and in
  every round, the all-zero column made before the loop. The column \<open>n_masks\<close> that every
  round computes from the done flags is written and never read: neither the next round
  nor the report depends on it.
\<close>

theorem eval_masks_zero:
  "(\<forall>k st. eval_iter ops ags k (eval_init ops cfg ags dir) = Inr st \<longrightarrow>
      ev_masks st = replicate (episodes_per_eval cfg) 0 \<and>
      (\<forall>i ob h m. Act i ob h m \<in> set (ev_trace st) \<longrightarrow> m = replicate (episodes_per_eval cfg) 0)) \<and>
   (\<forall>evs. evaluate ops cfg ags dir = Some (Inr evs) \<longrightarrow>
      (\<forall>i ob h m. Act i ob h m \<in> set evs \<longrightarrow> m = replicate (episodes_per_eval cfg) 0)) \<and>
   (\<forall>st st'. eval_step ops ags st = Inr st' \<longrightarrow>
      ev_masks st' = ev_masks st \<and> (\<exists>dn. ev_n_masks st' = Some (masks_of dn))) \<and>
   (\<forall>st x. eval_step ops ags (st\<lparr>ev_n_masks := x\<rparr>) = eval_step ops ags st) \<and>
   (\<forall>st x. eval_finish (st\<lparr>ev_n_masks := x\<rparr>) = eval_finish st)"
proof -
  let ?st0 = "eval_init ops cfg ags dir"
  let ?Z = "replicate (episodes_per_eval cfg) (0::real)"
  have a: "\<forall>k st. eval_iter ops ags k ?st0 = Inr st \<longrightarrow>
      ev_masks st = ?Z \<and> (\<forall>i ob h m. Act i ob h m \<in> set (ev_trace st) \<longrightarrow> m = ?Z)"
  proof (intro allI impI)
    fix k st assume it: "eval_iter ops ags k ?st0 = Inr st"
    have h0: "length (ev_hidden ?st0) = length ags" and i0: "\<forall>d \<in> set (ev_infos ?st0). d \<noteq> []"
      by (simp_all add: eval_init_sel)
    from eval_iter_Inr [OF it h0 i0] obtain new where
      n: "ev_masks st = ev_masks ?st0" "ev_trace st = ev_trace ?st0 @ new"
         "\<forall>e \<in> set new. (\<exists>i ob h. e = Act i ob h (ev_masks ?st0)) \<or> (\<exists>acts. e = EnvStep EvalEnvs acts)"
      by blast
    have "\<forall>i ob h m. Act i ob h m \<in> set (ev_trace st) \<longrightarrow> m = ?Z"
    proof (intro allI impI)
      fix i ob h m assume "Act i ob h m \<in> set (ev_trace st)"
      with n(2) have "Act i ob h m \<in> set new"
        by (simp add: eval_init_sel)
      with n(3) have "(\<exists>i' ob' h'. Act i ob h m = Act i' ob' h' (ev_masks ?st0)) \<or>
          (\<exists>acts. Act i ob h m = EnvStep EvalEnvs acts)" by blast
      then show "m = ?Z" by (simp add: eval_init_sel)
    qed
    with n(1) show "ev_masks st = ?Z \<and> (\<forall>i ob h m. Act i ob h m \<in> set (ev_trace st) \<longrightarrow> m = ?Z)"
      by (simp add: eval_init_sel)
  qed
  have b: "\<forall>evs. evaluate ops cfg ags dir = Some (Inr evs) \<longrightarrow>
      (\<forall>i ob h m. Act i ob h m \<in> set evs \<longrightarrow> m = ?Z)"
  proof (intro allI impI)
    fix evs i ob h m
    assume ev: "evaluate ops cfg ags dir = Some (Inr evs)" and mem: "Act i ob h m \<in> set evs"
    from evaluate_Inr [OF ev] obtain k st r where
      it: "eval_iter ops ags k ?st0 = Inr st"
      and evs: "evs = ev_trace st @ [EnvClose EvalEnvs, LogEval (length (ev_infos st)) r]"
      by blast
    from mem evs have "Act i ob h m \<in> set (ev_trace st)" by simp
    with a it show "m = ?Z" by blast
  qed
  have c: "\<forall>st st'. eval_step ops ags st = Inr st' \<longrightarrow>
      ev_masks st' = ev_masks st \<and> (\<exists>dn. ev_n_masks st' = Some (masks_of dn))"
    using eval_step_Inr eval_step_writes_n_masks by blast
  have d: "\<forall>st x. eval_step ops ags (st\<lparr>ev_n_masks := x\<rparr>) = eval_step ops ags st"
    by (simp add: eval_step_n_masks)
  have e: "\<forall>st x. eval_finish (st\<lparr>ev_n_masks := x\<rparr>) = eval_finish st"
    by (simp add: eval_finish_def split: option.splits)
  from a b c d e show ?thesis by (intro conjI)
qed

theorem eval_masks_zero_witness:
  "\<exists>st. eval_iter toy_ops toy_agents 2 (eval_init toy_ops toy_cfg toy_agents ''ev/u2'') = Inr st \<and>
     ev_masks st = [0, 0, 0] \<and>
     ev_n_masks st = Some [0, 0, 1] \<and>
     Act 1 0 1 [0, 0, 0] \<in> set (ev_trace st) \<and>
     Act 1 0 1 [0, 0, 1] \<notin> set (ev_trace st)"
proof -
  let ?st0 = "eval_init toy_ops toy_cfg toy_agents ''ev/u2''"
  have "\<exists>st. eval_iter toy_ops toy_agents 2 ?st0 = Inr st \<and> ev_n_masks st = Some [0, 0, 1] \<and>
     Act 1 0 1 [0, 0, 0] \<in> set (ev_trace st)"
    by (simp add: toy_eval_defs numeral_2_eq_2 numeral_3_eq_3)
  then obtain st where st: "eval_iter toy_ops toy_agents 2 ?st0 = Inr st"
    "ev_n_masks st = Some [0, 0, 1]" "Act 1 0 1 [0, 0, 0] \<in> set (ev_trace st)" by blast
  from eval_masks_zero [of toy_ops toy_agents toy_cfg "''ev/u2''"]
  have "\<forall>k st. eval_iter toy_ops toy_agents k ?st0 = Inr st \<longrightarrow>
      ev_masks st = replicate (episodes_per_eval toy_cfg) 0 \<and>
      (\<forall>i ob h m. Act i ob h m \<in> set (ev_trace st) \<longrightarrow> m = replicate (episodes_per_eval toy_cfg) 0)"
    by (elim conjE)
  from this [rule_format, OF st(1)]
  have z: "ev_masks st = replicate (episodes_per_eval toy_cfg) 0"
    and all: "\<And>i ob h m. Act i ob h m \<in> set (ev_trace st) \<Longrightarrow> m = replicate (episodes_per_eval toy_cfg) 0"
    by blast+
  have "Act 1 0 1 [0, 0, 1] \<notin> set (ev_trace st)"
  proof
    assume "Act 1 0 1 [0, 0, 1] \<in> set (ev_trace st)"
    from all [OF this] show False
      by (simp add: toy_cfg_def numeral_3_eq_3)
  qed
  with st z show ?thesis
    by (auto simp: toy_cfg_def numeral_3_eq_3)
qed

section \<open>Cadence of checkpoints and evaluations\<close>

lemma cadence_due_eq:
  "1 \<le> j \<Longrightarrow> n \<noteq> 0 \<Longrightarrow> cadence_due (Some n) j num_updates = Inr (j mod n = 0 \<or> j = num_updates)"
  by (simp add: cadence_due_def)

lemma checkpoint_sel:
  "agents (checkpoint ops cfg j s) = agents s"
  "envs (checkpoint ops cfg j s) = envs s"
  "all_infos (checkpoint ops cfg j s) = all_infos s"
  "environment_steps (checkpoint ops cfg j s) = environment_steps s"
  "trace (checkpoint ops cfg j s) =
     trace s @
     concat (map (\<lambda>a. [Makedirs (save_at cfg j (agent_id a)),
                       AgentSave (agent_id a) (model a) (save_at cfg j (agent_id a))]) (agents s)) @
     [MakeArchive (cur_save_dir cfg j) ''xztar'' (save_dir cfg) (''u'' @ str_int j),
      Rmtree (cur_save_dir cfg j),
      LogArtifact (make_archive ops (cur_save_dir cfg j) ''xztar'' (save_dir cfg) (''u'' @ str_int j)) None]"
  by (simp_all add: checkpoint_def save_agents_fold Let_def)

lemma evaluate_starts:
  assumes "evaluate ops cfg ags dir = Some (Inr evs)"
  shows "\<exists>rest. evs = MakeVecEnvs EvalEnvs (episodes_per_eval cfg) (Some dir) # EnvReset EvalEnvs # rest"
proof -
  from evaluate_Inr [OF assms] obtain k st r where
    it: "eval_iter ops ags k (eval_init ops cfg ags dir) = Inr st"
    and evs: "evs = ev_trace st @ [EnvClose EvalEnvs, LogEval (length (ev_infos st)) r]"
    by blast
  have h0: "length (ev_hidden (eval_init ops cfg ags dir)) = length ags"
    and i0: "\<forall>d \<in> set (ev_infos (eval_init ops cfg ags dir)). d \<noteq> []"
    by (simp_all add: eval_init_sel)
  from eval_iter_Inr [OF it h0 i0] obtain new where
    "ev_trace st = ev_trace (eval_init ops cfg ags dir) @ new" by blast
  with evs show ?thesis by (simp add: eval_init_sel)
qed

lemma run_evaluation_Some:
  assumes "run_evaluation ops cfg j s = Some (Inr s')"
  shows "envs s' = envs s \<and> agents s' = agents s \<and> all_infos s' = all_infos s \<and>
     environment_steps s' = environment_steps s \<and>
     (\<exists>rest. trace s' = trace s @
        MakeVecEnvs EvalEnvs (episodes_per_eval cfg) (Some (path_join (eval_dir cfg) (''u'' @ str_int j))) #
        EnvReset EvalEnvs # rest)"
proof -
  let ?dir = "path_join (eval_dir cfg) (''u'' @ str_int j)"
  from assms obtain evs where ev: "evaluate ops cfg (agents s) ?dir = Some (Inr evs)"
    and s': "s' = s\<lparr>trace := trace s @ evs @
              map (\<lambda>(i, v). LogArtifact v (Some (''u'' @ str_int j @ ''.'' @ str_nat i @ ''.mp4'')))
                (enumerate 0 (glob_mp4 ops (?dir @ ''/*.mp4'')))\<rparr>"
    by (auto simp: run_evaluation_def split: option.splits sum.splits)
  from evaluate_starts [OF ev] obtain rest where
    "evs = MakeVecEnvs EvalEnvs (episodes_per_eval cfg) (Some ?dir) # EnvReset EvalEnvs # rest"
    by blast
  then show ?thesis by (simp add: s')
qed

lemma save_phase_due:
  assumes "1 \<le> j" and "save_interval cfg = Some n" and "n \<noteq> 0"
  shows "save_phase ops cfg num_updates j s =
           Inr (if j mod n = 0 \<or> j = num_updates then checkpoint ops cfg j s else s)"
  using assms by (simp add: save_phase_def cadence_due_eq)

lemma archive_in_checkpoint:
  "MakeArchive (cur_save_dir cfg j) ''xztar'' (save_dir cfg) (''u'' @ str_int j)
     \<in> set (drop (length (trace s)) (trace (checkpoint ops cfg j s)))"
  by (simp add: checkpoint_sel(5))

lemma save_phase_archive:
  "MakeArchive (cur_save_dir cfg j) ''xztar'' (save_dir cfg) (''u'' @ str_int j)
     \<in> set (drop (length (trace s)) (trace (if P then checkpoint ops cfg j s else s))) \<longleftrightarrow> P"
  using archive_in_checkpoint [of cfg j s ops] by (cases P) simp_all

lemma eval_phase_due:
  assumes "1 \<le> j" and "eval_interval cfg = Some n" and "n \<noteq> 0"
  shows "eval_phase ops cfg num_updates j s =
           (if j mod n = 0 \<or> j = num_updates then run_evaluation ops cfg j s else Some (Inr s))"
  using assms by (simp add: eval_phase_def cadence_due_eq)

lemma eval_phase_env:
  assumes "1 \<le> j" and "eval_interval cfg = Some n" and "n \<noteq> 0"
    and r: "eval_phase ops cfg num_updates j s = Some (Inr s')"
  shows "MakeVecEnvs EvalEnvs (episodes_per_eval cfg) (Some (path_join (eval_dir cfg) (''u'' @ str_int j)))
            \<in> set (drop (length (trace s)) (trace s'))
         \<longleftrightarrow> j mod n = 0 \<or> j = num_updates"
proof (cases "j mod n = 0 \<or> j = num_updates")
  case True
  with r eval_phase_due [OF assms(1-3), of ops num_updates s]
  have "run_evaluation ops cfg j s = Some (Inr s')" by simp
  from run_evaluation_Some [OF this] obtain rest where
    "trace s' = trace s @
        MakeVecEnvs EvalEnvs (episodes_per_eval cfg) (Some (path_join (eval_dir cfg) (''u'' @ str_int j))) #
        EnvReset EvalEnvs # rest" by blast
  then have "MakeVecEnvs EvalEnvs (episodes_per_eval cfg) (Some (path_join (eval_dir cfg) (''u'' @ str_int j)))
            \<in> set (drop (length (trace s)) (trace s'))" by simp
  with True show ?thesis by simp
next
  case False
  with r eval_phase_due [OF assms(1-3), of ops num_updates s] have "s' = s" by simp
  with False show ?thesis by simp
qed


lemma run_evaluation_changes:
  "run_evaluation ops cfg j s \<noteq> Some (Inr s)"
proof
  assume "run_evaluation ops cfg j s = Some (Inr s)"
  from run_evaluation_Some [OF this] obtain rest where
    "trace s = trace s @
        MakeVecEnvs EvalEnvs (episodes_per_eval cfg) (Some (path_join (eval_dir cfg) (''u'' @ str_int j))) #
        EnvReset EvalEnvs # rest" by blast
  then show False by simp
qed

lemma run_evaluation_at_stop:
  assumes "eval_iter ops (agents s) k (eval_init ops cfg (agents s) (path_join (eval_dir cfg) (''u'' @ str_int j))) = Inr st"
    and "episodes_per_eval cfg \<le> length (ev_infos st)"
    and "\<forall>i < k. \<exists>st_i. eval_iter ops (agents s) i (eval_init ops cfg (agents s) (path_join (eval_dir cfg) (''u'' @ str_int j))) = Inr st_i \<and>
                               length (ev_infos st_i) < episodes_per_eval cfg"
  shows "run_evaluation ops cfg j s =
               (case squash_info (ev_infos st) ''episode_reward'' of
                  None \<Rightarrow> Some (Inl KeyError)
                | Some r \<Rightarrow>
                    Some (Inr (s\<lparr>trace := trace s @
                       (ev_trace st @ [EnvClose EvalEnvs, LogEval (length (ev_infos st)) r]) @
                       map (\<lambda>(i, v). LogArtifact v (Some (''u'' @ str_int j @ ''.'' @ str_nat i @ ''.mp4'')))
                 (enumerate 0 (glob_mp4 ops (path_join (eval_dir cfg) (''u'' @ str_int j) @ ''/*.mp4'')))\<rparr>)))"
  unfolding run_evaluation_def evaluate_at_stop [OF assms]
  by (simp split: option.splits)

lemma run_evaluation_never:
  assumes "\<forall>k. \<exists>st. eval_iter ops (agents s) k (eval_init ops cfg (agents s) (path_join (eval_dir cfg) (''u'' @ str_int j))) = Inr st \<and>
                          length (ev_infos st) < episodes_per_eval cfg"
  shows "run_evaluation ops cfg j s = None"
  using eval_loop_None [OF assms]
  by (simp add: run_evaluation_def evaluate_def)

lemma eval_phase_None:
  "eval_interval cfg = None \<Longrightarrow> eval_phase ops cfg num_updates j s = Some (Inr s)"
  by (simp add: eval_phase_def cadence_due_def)

lemma save_phase_None:
  "save_interval cfg = None \<Longrightarrow> save_phase ops cfg num_updates j s = Inr s"
  by (simp add: save_phase_def cadence_due_def)

text \<open>
  Claim C6. For every update index \<open>j \<ge> 1\<close>: with a save interval \<open>n\<close> configured, the
  checkpoint of \<open>main\<close> is written exactly when \<open>j % n = 0\<close> or \<open>j\<close> is the final update,
  and it shows in the calls as the archive of the cycle. With an evaluation interval
  \<open>n\<close> configured, \<open>evaluate\<close> is run on the agents, with the directory \<open>eval_dir/u<j>\<close>,
  exactly when \<open>j % n = 0\<close> or \<open>j\<close> is the final update: then the phase gives what
  \<open>evaluate\<close> gives (it does not return if \<open>evaluate\<close> does not, it raises what
  \<open>evaluate\<close> raises, and otherwise it appends the calls of \<open>evaluate\<close> and the logging of
  the videos to the calls made so far), so it never leaves the state as it was; when
  the loop of \<open>evaluate\<close> stops after \<open>k\<close> rounds, the phase appends the calls of these
  \<open>k\<close> rounds, the closing of the environment and the report; when the loop never stops,
  the phase does not return. Otherwise the phase returns the state as it was. A run
  that returns shows as the construction of the evaluation environment. With an
  interval of \<open>None\<close> neither a checkpoint nor an evaluation happens. (An interval of 0
  makes \<open>j % n\<close> raise and is excluded.)
\<close>

theorem cadence_triggers:
  assumes "1 \<le> j"
  shows "(\<forall>n. save_interval cfg = Some n \<and> n \<noteq> 0 \<longrightarrow>
            save_phase ops cfg num_updates j s =
              Inr (if j mod n = 0 \<or> j = num_updates then checkpoint ops cfg j s else s) \<and>
            (MakeArchive (cur_save_dir cfg j) ''xztar'' (save_dir cfg) (''u'' @ str_int j)
               \<in> set (drop (length (trace s))
                           (trace (if j mod n = 0 \<or> j = num_updates then checkpoint ops cfg j s else s)))
             \<longleftrightarrow> j mod n = 0 \<or> j = num_updates)) \<and>
         (save_interval cfg = None \<longrightarrow> save_phase ops cfg num_updates j s = Inr s) \<and>
         (\<forall>n. eval_interval cfg = Some n \<and> n \<noteq> 0 \<longrightarrow>
            eval_phase ops cfg num_updates j s =
              (if j mod n = 0 \<or> j = num_updates then
                 (case evaluate ops cfg (agents s) (path_join (eval_dir cfg) (''u'' @ str_int j)) of
                    None \<Rightarrow> None
                  | Some (Inl e) \<Rightarrow> Some (Inl e)
                  | Some (Inr evs) \<Rightarrow>
                      Some (Inr (s\<lparr>trace := trace s @ evs @
                         map (\<lambda>(i, v). LogArtifact v (Some (''u'' @ str_int j @ ''.'' @ str_nat i @ ''.mp4'')))
                 (enumerate 0 (glob_mp4 ops (path_join (eval_dir cfg) (''u'' @ str_int j) @ ''/*.mp4'')))\<rparr>)))
               else Some (Inr s)) \<and>
            (j mod n = 0 \<or> j = num_updates \<longrightarrow> eval_phase ops cfg num_updates j s \<noteq> Some (Inr s)) \<and>
            (\<forall>s'. eval_phase ops cfg num_updates j s = Some (Inr s') \<longrightarrow>
               (MakeVecEnvs EvalEnvs (episodes_per_eval cfg)
                    (Some (path_join (eval_dir cfg) (''u'' @ str_int j)))
                  \<in> set (drop (length (trace s)) (trace s'))
                \<longleftrightarrow> j mod n = 0 \<or> j = num_updates)) \<and>
            (\<forall>k st.
               (j mod n = 0 \<or> j = num_updates) \<and>
               eval_iter ops (agents s) k (eval_init ops cfg (agents s) (path_join (eval_dir cfg) (''u'' @ str_int j))) = Inr st \<and>
               episodes_per_eval cfg \<le> length (ev_infos st) \<and>
               (\<forall>i < k. \<exists>st_i. eval_iter ops (agents s) i (eval_init ops cfg (agents s) (path_join (eval_dir cfg) (''u'' @ str_int j))) = Inr st_i \<and>
                               length (ev_infos st_i) < episodes_per_eval cfg)
               \<longrightarrow>
               eval_phase ops cfg num_updates j s =
               (case squash_info (ev_infos st) ''episode_reward'' of
                  None \<Rightarrow> Some (Inl KeyError)
                | Some r \<Rightarrow>
                    Some (Inr (s\<lparr>trace := trace s @
                       (ev_trace st @ [EnvClose EvalEnvs, LogEval (length (ev_infos st)) r]) @
                       map (\<lambda>(i, v). LogArtifact v (Some (''u'' @ str_int j @ ''.'' @ str_nat i @ ''.mp4'')))
                 (enumerate 0 (glob_mp4 ops (path_join (eval_dir cfg) (''u'' @ str_int j) @ ''/*.mp4'')))\<rparr>)))) \<and>
            ((j mod n = 0 \<or> j = num_updates) \<and>
             (\<forall>k. \<exists>st. eval_iter ops (agents s) k (eval_init ops cfg (agents s) (path_join (eval_dir cfg) (''u'' @ str_int j))) = Inr st \<and>
                          length (ev_infos st) < episodes_per_eval cfg)
             \<longrightarrow> eval_phase ops cfg num_updates j s = None)) \<and>
         (eval_interval cfg = None \<longrightarrow> eval_phase ops cfg num_updates j s = Some (Inr s))"
proof -
  have sv: "\<forall>n. save_interval cfg = Some n \<and> n \<noteq> 0 \<longrightarrow>
            save_phase ops cfg num_updates j s =
              Inr (if j mod n = 0 \<or> j = num_updates then checkpoint ops cfg j s else s) \<and>
            (MakeArchive (cur_save_dir cfg j) ''xztar'' (save_dir cfg) (''u'' @ str_int j)
               \<in> set (drop (length (trace s))
                           (trace (if j mod n = 0 \<or> j = num_updates then checkpoint ops cfg j s else s)))
             \<longleftrightarrow> j mod n = 0 \<or> j = num_updates)"
  proof (intro allI impI, elim conjE)
    fix n assume i: "save_interval cfg = Some n" and nz: "n \<noteq> 0"
    show "save_phase ops cfg num_updates j s =
              Inr (if j mod n = 0 \<or> j = num_updates then checkpoint ops cfg j s else s) \<and>
            (MakeArchive (cur_save_dir cfg j) ''xztar'' (save_dir cfg) (''u'' @ str_int j)
               \<in> set (drop (length (trace s))
                           (trace (if j mod n = 0 \<or> j = num_updates then checkpoint ops cfg j s else s)))
             \<longleftrightarrow> j mod n = 0 \<or> j = num_updates)"
      by (rule conjI [OF save_phase_due [OF assms i nz] save_phase_archive])
  qed
  have sn: "save_interval cfg = None \<longrightarrow> save_phase ops cfg num_updates j s = Inr s"
    by (intro impI) (rule save_phase_None)
  have ev: "\<forall>n. eval_interval cfg = Some n \<and> n \<noteq> 0 \<longrightarrow>
            eval_phase ops cfg num_updates j s =
              (if j mod n = 0 \<or> j = num_updates then
                 (case evaluate ops cfg (agents s) (path_join (eval_dir cfg) (''u'' @ str_int j)) of
                    None \<Rightarrow> None
                  | Some (Inl e) \<Rightarrow> Some (Inl e)
                  | Some (Inr evs) \<Rightarrow>
                      Some (Inr (s\<lparr>trace := trace s @ evs @
                         map (\<lambda>(i, v). LogArtifact v (Some (''u'' @ str_int j @ ''.'' @ str_nat i @ ''.mp4'')))
                 (enumerate 0 (glob_mp4 ops (path_join (eval_dir cfg) (''u'' @ str_int j) @ ''/*.mp4'')))\<rparr>)))
               else Some (Inr s)) \<and>
            (j mod n = 0 \<or> j = num_updates \<longrightarrow> eval_phase ops cfg num_updates j s \<noteq> Some (Inr s)) \<and>
            (\<forall>s'. eval_phase ops cfg num_updates j s = Some (Inr s') \<longrightarrow>
               (MakeVecEnvs EvalEnvs (episodes_per_eval cfg)
                    (Some (path_join (eval_dir cfg) (''u'' @ str_int j)))
                  \<in> set (drop (length (trace s)) (trace s'))
                \<longleftrightarrow> j mod n = 0 \<or> j = num_updates)) \<and>
            (\<forall>k st.
               (j mod n = 0 \<or> j = num_updates) \<and>
               eval_iter ops (agents s) k (eval_init ops cfg (agents s) (path_join (eval_dir cfg) (''u'' @ str_int j))) = Inr st \<and>
               episodes_per_eval cfg \<le> length (ev_infos st) \<and>
               (\<forall>i < k. \<exists>st_i. eval_iter ops (agents s) i (eval_init ops cfg (agents s) (path_join (eval_dir cfg) (''u'' @ str_int j))) = Inr st_i \<and>
                               length (ev_infos st_i) < episodes_per_eval cfg)
               \<longrightarrow>
               eval_phase ops cfg num_updates j s =
               (case squash_info (ev_infos st) ''episode_reward'' of
                  None \<Rightarrow> Some (Inl KeyError)
                | Some r \<Rightarrow>
                    Some (Inr (s\<lparr>trace := trace s @
                       (ev_trace st @ [EnvClose EvalEnvs, LogEval (length (ev_infos st)) r]) @
                       map (\<lambda>(i, v). LogArtifact v (Some (''u'' @ str_int j @ ''.'' @ str_nat i @ ''.mp4'')))
                 (enumerate 0 (glob_mp4 ops (path_join (eval_dir cfg) (''u'' @ str_int j) @ ''/*.mp4'')))\<rparr>)))) \<and>
            ((j mod n = 0 \<or> j = num_updates) \<and>
             (\<forall>k. \<exists>st. eval_iter ops (agents s) k (eval_init ops cfg (agents s) (path_join (eval_dir cfg) (''u'' @ str_int j))) = Inr st \<and>
                          length (ev_infos st) < episodes_per_eval cfg)
             \<longrightarrow> eval_phase ops cfg num_updates j s = None)"
  proof (intro allI impI, elim conjE)
    fix n assume i: "eval_interval cfg = Some n" and nz: "n \<noteq> 0"
    note due = eval_phase_due [OF assms i nz, of ops num_updates s]
    have p1: "eval_phase ops cfg num_updates j s =
              (if j mod n = 0 \<or> j = num_updates then
                 (case evaluate ops cfg (agents s) (path_join (eval_dir cfg) (''u'' @ str_int j)) of
                    None \<Rightarrow> None
                  | Some (Inl e) \<Rightarrow> Some (Inl e)
                  | Some (Inr evs) \<Rightarrow>
                      Some (Inr (s\<lparr>trace := trace s @ evs @
                         map (\<lambda>(i, v). LogArtifact v (Some (''u'' @ str_int j @ ''.'' @ str_nat i @ ''.mp4'')))
                 (enumerate 0 (glob_mp4 ops (path_join (eval_dir cfg) (''u'' @ str_int j) @ ''/*.mp4'')))\<rparr>)))
               else Some (Inr s))"
      unfolding due run_evaluation_def ..
    have p2: "j mod n = 0 \<or> j = num_updates \<longrightarrow> eval_phase ops cfg num_updates j s \<noteq> Some (Inr s)"
      unfolding due using run_evaluation_changes [of ops cfg j s] by simp
    have p3: "\<forall>s'. eval_phase ops cfg num_updates j s = Some (Inr s') \<longrightarrow>
               (MakeVecEnvs EvalEnvs (episodes_per_eval cfg)
                    (Some (path_join (eval_dir cfg) (''u'' @ str_int j)))
                  \<in> set (drop (length (trace s)) (trace s'))
                \<longleftrightarrow> j mod n = 0 \<or> j = num_updates)"
    proof (intro allI impI)
      fix s' assume "eval_phase ops cfg num_updates j s = Some (Inr s')"
      from eval_phase_env [OF assms i nz this]
      show "MakeVecEnvs EvalEnvs (episodes_per_eval cfg)
                    (Some (path_join (eval_dir cfg) (''u'' @ str_int j)))
                  \<in> set (drop (length (trace s)) (trace s'))
                \<longleftrightarrow> j mod n = 0 \<or> j = num_updates" .
    qed
    have p4: "\<forall>k st.
               (j mod n = 0 \<or> j = num_updates) \<and>
               eval_iter ops (agents s) k (eval_init ops cfg (agents s) (path_join (eval_dir cfg) (''u'' @ str_int j))) = Inr st \<and>
               episodes_per_eval cfg \<le> length (ev_infos st) \<and>
               (\<forall>i < k. \<exists>st_i. eval_iter ops (agents s) i (eval_init ops cfg (agents s) (path_join (eval_dir cfg) (''u'' @ str_int j))) = Inr st_i \<and>
                               length (ev_infos st_i) < episodes_per_eval cfg)
               \<longrightarrow>
               eval_phase ops cfg num_updates j s =
               (case squash_info (ev_infos st) ''episode_reward'' of
                  None \<Rightarrow> Some (Inl KeyError)
                | Some r \<Rightarrow>
                    Some (Inr (s\<lparr>trace := trace s @
                       (ev_trace st @ [EnvClose EvalEnvs, LogEval (length (ev_infos st)) r]) @
                       map (\<lambda>(i, v). LogArtifact v (Some (''u'' @ str_int j @ ''.'' @ str_nat i @ ''.mp4'')))
                 (enumerate 0 (glob_mp4 ops (path_join (eval_dir cfg) (''u'' @ str_int j) @ ''/*.mp4'')))\<rparr>)))"
    proof (intro allI impI, elim conjE)
      fix k st
      assume d: "j mod n = 0 \<or> j = num_updates"
        and it: "eval_iter ops (agents s) k (eval_init ops cfg (agents s) (path_join (eval_dir cfg) (''u'' @ str_int j))) = Inr st"
        and ge: "episodes_per_eval cfg \<le> length (ev_infos st)"
        and lt: "\<forall>i < k. \<exists>st_i. eval_iter ops (agents s) i (eval_init ops cfg (agents s) (path_join (eval_dir cfg) (''u'' @ str_int j))) = Inr st_i \<and>
                               length (ev_infos st_i) < episodes_per_eval cfg"
      from d have "eval_phase ops cfg num_updates j s = run_evaluation ops cfg j s"
        unfolding due by simp
      also note run_evaluation_at_stop [OF it ge lt]
      finally show "eval_phase ops cfg num_updates j s =
               (case squash_info (ev_infos st) ''episode_reward'' of
                  None \<Rightarrow> Some (Inl KeyError)
                | Some r \<Rightarrow>
                    Some (Inr (s\<lparr>trace := trace s @
                       (ev_trace st @ [EnvClose EvalEnvs, LogEval (length (ev_infos st)) r]) @
                       map (\<lambda>(i, v). LogArtifact v (Some (''u'' @ str_int j @ ''.'' @ str_nat i @ ''.mp4'')))
                 (enumerate 0 (glob_mp4 ops (path_join (eval_dir cfg) (''u'' @ str_int j) @ ''/*.mp4'')))\<rparr>)))" .
    qed
    have p5: "(j mod n = 0 \<or> j = num_updates) \<and>
             (\<forall>k. \<exists>st. eval_iter ops (agents s) k (eval_init ops cfg (agents s) (path_join (eval_dir cfg) (''u'' @ str_int j))) = Inr st \<and>
                          length (ev_infos st) < episodes_per_eval cfg)
             \<longrightarrow> eval_phase ops cfg num_updates j s = None"
    proof (intro impI, elim conjE)
      assume d: "j mod n = 0 \<or> j = num_updates"
        and nv: "\<forall>k. \<exists>st. eval_iter ops (agents s) k (eval_init ops cfg (agents s) (path_join (eval_dir cfg) (''u'' @ str_int j))) = Inr st \<and>
                          length (ev_infos st) < episodes_per_eval cfg"
      from d have "eval_phase ops cfg num_updates j s = run_evaluation ops cfg j s"
        unfolding due by simp
      also note run_evaluation_never [OF nv]
      finally show "eval_phase ops cfg num_updates j s = None" .
    qed
    show "eval_phase ops cfg num_updates j s =
              (if j mod n = 0 \<or> j = num_updates then
                 (case evaluate ops cfg (agents s) (path_join (eval_dir cfg) (''u'' @ str_int j)) of
                    None \<Rightarrow> None
                  | Some (Inl e) \<Rightarrow> Some (Inl e)
                  | Some (Inr evs) \<Rightarrow>
                      Some (Inr (s\<lparr>trace := trace s @ evs @
                         map (\<lambda>(i, v). LogArtifact v (Some (''u'' @ str_int j @ ''.'' @ str_nat i @ ''.mp4'')))
                 (enumerate 0 (glob_mp4 ops (path_join (eval_dir cfg) (''u'' @ str_int j) @ ''/*.mp4'')))\<rparr>)))
               else Some (Inr s)) \<and>
            (j mod n = 0 \<or> j = num_updates \<longrightarrow> eval_phase ops cfg num_updates j s \<noteq> Some (Inr s)) \<and>
            (\<forall>s'. eval_phase ops cfg num_updates j s = Some (Inr s') \<longrightarrow>
               (MakeVecEnvs EvalEnvs (episodes_per_eval cfg)
                    (Some (path_join (eval_dir cfg) (''u'' @ str_int j)))
                  \<in> set (drop (length (trace s)) (trace s'))
                \<longleftrightarrow> j mod n = 0 \<or> j = num_updates)) \<and>
            (\<forall>k st.
               (j mod n = 0 \<or> j = num_updates) \<and>
               eval_iter ops (agents s) k (eval_init ops cfg (agents s) (path_join (eval_dir cfg) (''u'' @ str_int j))) = Inr st \<and>
               episodes_per_eval cfg \<le> length (ev_infos st) \<and>
               (\<forall>i < k. \<exists>st_i. eval_iter ops (agents s) i (eval_init ops cfg (agents s) (path_join (eval_dir cfg) (''u'' @ str_int j))) = Inr st_i \<and>
                               length (ev_infos st_i) < episodes_per_eval cfg)
               \<longrightarrow>
               eval_phase ops cfg num_updates j s =
               (case squash_info (ev_infos st) ''episode_reward'' of
                  None \<Rightarrow> Some (Inl KeyError)
                | Some r \<Rightarrow>
                    Some (Inr (s\<lparr>trace := trace s @
                       (ev_trace st @ [EnvClose EvalEnvs, LogEval (length (ev_infos st)) r]) @
                       map (\<lambda>(i, v). LogArtifact v (Some (''u'' @ str_int j @ ''.'' @ str_nat i @ ''.mp4'')))
                 (enumerate 0 (glob_mp4 ops (path_join (eval_dir cfg) (''u'' @ str_int j) @ ''/*.mp4'')))\<rparr>)))) \<and>
            ((j mod n = 0 \<or> j = num_updates) \<and>
             (\<forall>k. \<exists>st. eval_iter ops (agents s) k (eval_init ops cfg (agents s) (path_join (eval_dir cfg) (''u'' @ str_int j))) = Inr st \<and>
                          length (ev_infos st) < episodes_per_eval cfg)
             \<longrightarrow> eval_phase ops cfg num_updates j s = None)"
      by (rule conjI [OF p1 conjI [OF p2 conjI [OF p3 conjI [OF p4 p5]]]])
  qed
  have en: "eval_interval cfg = None \<longrightarrow> eval_phase ops cfg num_updates j s = Some (Inr s)"
    by (intro impI) (rule eval_phase_None)
  show ?thesis
    by (rule conjI [OF sv conjI [OF sn conjI [OF ev en]]])
qed

theorem cadence_triggers_witness:
  "save_phase toy_ops toy_cfg 5 4 toy_state = Inr (checkpoint toy_ops toy_cfg 4 toy_state) \<and>
   MakeArchive ''sv/u4'' ''xztar'' ''sv'' ''u4'' \<in> set (trace (checkpoint toy_ops toy_cfg 4 toy_state)) \<and>
   save_phase toy_ops toy_cfg 5 3 toy_state = Inr toy_state \<and>
   save_phase toy_ops toy_cfg 5 5 toy_state = Inr (checkpoint toy_ops toy_cfg 5 toy_state) \<and>
   eval_phase toy_ops toy_cfg 5 4 toy_state =
     Some (Inr (toy_state\<lparr>trace :=
       [MakeVecEnvs EvalEnvs 3 (Some ''ev/u4''), EnvReset EvalEnvs,
        Act 0 0 0 [0, 0, 0], Act 1 0 0 [0, 0, 0], EnvStep EvalEnvs [0, 1],
        Act 0 0 1 [0, 0, 0], Act 1 0 1 [0, 0, 0], EnvStep EvalEnvs [0, 1],
        EnvClose EvalEnvs, LogEval 4 (11 / 2)]\<rparr>)) \<and>
   eval_phase toy_ops toy_cfg 5 3 toy_state = Some (Inr toy_state) \<and>
   eval_phase toy_ops toy_cfg 5 5 toy_state =
     Some (Inr (toy_state\<lparr>trace :=
       [MakeVecEnvs EvalEnvs 3 (Some ''ev/u5''), EnvReset EvalEnvs,
        Act 0 0 0 [0, 0, 0], Act 1 0 0 [0, 0, 0], EnvStep EvalEnvs [0, 1],
        Act 0 0 1 [0, 0, 0], Act 1 0 1 [0, 0, 0], EnvStep EvalEnvs [0, 1],
        EnvClose EvalEnvs, LogEval 4 (11 / 2)]\<rparr>)) \<and>
   eval_phase silent_ops toy_cfg 5 4 toy_state = None"
proof -
  have s: "save_interval toy_cfg = Some 2 \<and> (2::int) \<noteq> 0"
    and e: "eval_interval toy_cfg = Some 2 \<and> (2::int) \<noteq> 0"
    by (simp_all add: toy_cfg_def)
  have j: "(1::int) \<le> 4" "(1::int) \<le> 3" "(1::int) \<le> 5" by simp_all
  have ag: "agents toy_state = toy_agents" and tr: "trace toy_state = []"
    by (simp_all add: toy_state_def)
  have u4: "str_int 4 = ''4''" and u5: "str_int 5 = ''5''"
    by (simp_all add: str_int_def str_nat.simps digit_char_def)
  have d4: "path_join (eval_dir toy_cfg) (''u'' @ str_int 4) = ''ev/u4''"
    and d5: "path_join (eval_dir toy_cfg) (''u'' @ str_int 5) = ''ev/u5''"
    by (simp_all add: path_join_def toy_cfg_def u4 u5)
  have c4: "cur_save_dir toy_cfg 4 = ''sv/u4''" and sd: "save_dir toy_cfg = ''sv''"
    by (simp_all add: cur_save_dir_def path_join_def toy_cfg_def u4)
  have gl: "glob_mp4 toy_ops p = []" for p
    by (simp add: toy_ops_def)
  note T4 = cadence_triggers [OF j(1), where cfg = toy_cfg and num_updates = 5 and s = toy_state and ops = toy_ops]
  note T3 = cadence_triggers [OF j(2), where cfg = toy_cfg and num_updates = 5 and s = toy_state and ops = toy_ops]
  note T5 = cadence_triggers [OF j(3), where cfg = toy_cfg and num_updates = 5 and s = toy_state and ops = toy_ops]
  note TS = cadence_triggers [OF j(1), where cfg = toy_cfg and num_updates = 5 and s = toy_state and ops = silent_ops]
  note S4 = T4 [THEN conjunct1, rule_format, OF s]
  note S3 = T3 [THEN conjunct1, rule_format, OF s]
  note S5 = T5 [THEN conjunct1, rule_format, OF s]
  note E4 = T4 [THEN conjunct2, THEN conjunct2, THEN conjunct1, rule_format, OF e]
  note E3 = T3 [THEN conjunct2, THEN conjunct2, THEN conjunct1, rule_format, OF e]
  note E5 = T5 [THEN conjunct2, THEN conjunct2, THEN conjunct1, rule_format, OF e]
  note ES = TS [THEN conjunct2, THEN conjunct2, THEN conjunct1, rule_format, OF e]
  have s4: "save_phase toy_ops toy_cfg 5 4 toy_state = Inr (checkpoint toy_ops toy_cfg 4 toy_state)"
    using S4 [THEN conjunct1] by simp
  have a4: "MakeArchive ''sv/u4'' ''xztar'' ''sv'' ''u4'' \<in> set (trace (checkpoint toy_ops toy_cfg 4 toy_state))"
    using S4 [THEN conjunct2] unfolding c4 sd u4 tr by simp
  have s3: "save_phase toy_ops toy_cfg 5 3 toy_state = Inr toy_state"
    using S3 [THEN conjunct1] by simp
  have s5: "save_phase toy_ops toy_cfg 5 5 toy_state = Inr (checkpoint toy_ops toy_cfg 5 toy_state)"
    using S5 [THEN conjunct1] by simp
  have e4: "eval_phase toy_ops toy_cfg 5 4 toy_state =
     Some (Inr (toy_state\<lparr>trace :=
       [MakeVecEnvs EvalEnvs 3 (Some ''ev/u4''), EnvReset EvalEnvs,
        Act 0 0 0 [0, 0, 0], Act 1 0 0 [0, 0, 0], EnvStep EvalEnvs [0, 1],
        Act 0 0 1 [0, 0, 0], Act 1 0 1 [0, 0, 0], EnvStep EvalEnvs [0, 1],
        EnvClose EvalEnvs, LogEval 4 (11 / 2)]\<rparr>))"
    using E4 [THEN conjunct1] unfolding ag d4 toy_evaluate gl tr by simp
  have e3: "eval_phase toy_ops toy_cfg 5 3 toy_state = Some (Inr toy_state)"
    using E3 [THEN conjunct1] by simp
  have e5: "eval_phase toy_ops toy_cfg 5 5 toy_state =
     Some (Inr (toy_state\<lparr>trace :=
       [MakeVecEnvs EvalEnvs 3 (Some ''ev/u5''), EnvReset EvalEnvs,
        Act 0 0 0 [0, 0, 0], Act 1 0 0 [0, 0, 0], EnvStep EvalEnvs [0, 1],
        Act 0 0 1 [0, 0, 0], Act 1 0 1 [0, 0, 0], EnvStep EvalEnvs [0, 1],
        EnvClose EvalEnvs, LogEval 4 (11 / 2)]\<rparr>))"
    using E5 [THEN conjunct1] unfolding ag d5 toy_evaluate gl tr by simp
  have due: "(4::int) mod 2 = 0 \<or> (4::int) = 5"
    by simp
  have nv: "\<forall>k. \<exists>st. eval_iter silent_ops (agents toy_state) k
                (eval_init silent_ops toy_cfg (agents toy_state) (path_join (eval_dir toy_cfg) (''u'' @ str_int 4))) = Inr st \<and>
              length (ev_infos st) < episodes_per_eval toy_cfg"
    unfolding ag d4 by (rule silent_never)
  have es: "eval_phase silent_ops toy_cfg 5 4 toy_state = None"
    by (rule ES [THEN conjunct2, THEN conjunct2, THEN conjunct2, THEN conjunct2, THEN mp,
                 OF conjI [OF due nv]])
  from s4 a4 s3 s5 e4 e3 e5 es show ?thesis by (intro conjI)
qed

section \<open>Step counts along the run\<close>

lemma train_phase_Inr:
  assumes "train_phase ops cfg alg j s = Inr s'"
  shows "environment_steps s' = environment_steps s + int (num_steps alg) * int (num_envs alg) \<and>
         map agent_id (agents s') = map agent_id (agents s) \<and>
         length (agents s') = length (agents s)"
proof -
  let ?w = "loss_dir cfg \<noteq> []"
  let ?s0 = "s\<lparr>environment_steps := environment_steps s + int (num_steps alg) * int (num_envs alg)\<rparr>"
  from assms obtain s1 where r: "rollout ops (num_steps alg) ?s0 = Inr s1"
    and s': "s' = after_update_all ops (update_all ops ?w j (compute_returns_all ops s1))"
    by (auto simp: train_phase_def split: sum.splits)
  from rollout_Inr [OF r] have 1: "map agent_id (agents s1) = map agent_id (agents s)"
    "length (agents s1) = length (agents s)"
    "environment_steps s1 = environment_steps s + int (num_steps alg) * int (num_envs alg)"
    by simp_all
  let ?c = "compute_returns_all ops s1"
  let ?u = "update_all ops ?w j ?c"
  note C = compute_returns_all_sel [of ops s1]
  note U = update_in_order_sel [of ops ?w j "[0..<length (agents ?c)]" ?c, folded update_all_def]
  note A = after_update_all_sel [of ops ?u]
  from 1 C U A show ?thesis
    by (simp add: s')
qed

lemma save_phase_Inr:
  assumes "save_phase ops cfg num_updates j s = Inr s'"
  shows "environment_steps s' = environment_steps s \<and> agents s' = agents s \<and>
         envs s' = envs s \<and> all_infos s' = all_infos s"
  using assms
  by (auto simp: save_phase_def checkpoint_sel split: sum.splits bool.splits)

lemma eval_phase_Some:
  assumes "eval_phase ops cfg num_updates j s = Some (Inr s')"
  shows "environment_steps s' = environment_steps s \<and> agents s' = agents s \<and>
         envs s' = envs s \<and> all_infos s' = all_infos s"
proof (cases "cadence_due (eval_interval cfg) j num_updates")
  case (Inl e)
  with assms show ?thesis by (simp add: eval_phase_def)
next
  case (Inr due)
  show ?thesis
  proof (cases due)
    case True
    with Inr assms have "run_evaluation ops cfg j s = Some (Inr s')"
      by (simp add: eval_phase_def)
    from run_evaluation_Some [OF this] show ?thesis by simp
  next
    case False
    with Inr assms show ?thesis by (simp add: eval_phase_def)
  qed
qed

lemma cycle_Some:
  assumes "cycle ops cfg alg num_updates j s = Some (Inr s')"
  shows "environment_steps s' = environment_steps s + int (num_steps alg) * int (num_envs alg) \<and>
         map agent_id (agents s') = map agent_id (agents s)"
proof -
  from assms obtain s1 s2 s3 where
    t: "train_phase ops cfg alg j s = Inr s1"
    and l: "log_phase cfg alg j s1 = Inr s2"
    and c: "save_phase ops cfg num_updates j s2 = Inr s3"
    and e: "eval_phase ops cfg num_updates j s3 = Some (Inr s')"
    by (auto simp: cycle_def split: sum.splits)
  from train_phase_Inr [OF t] log_phase_Inr [OF l] save_phase_Inr [OF c] eval_phase_Some [OF e]
  show ?thesis by simp
qed

lemma run_updates_Some:
  "run_updates ops cfg alg num_updates js s = Some (Inr s') \<Longrightarrow>
     environment_steps s' =
       environment_steps s + int (length js) * (int (num_steps alg) * int (num_envs alg)) \<and>
     map agent_id (agents s') = map agent_id (agents s)"
proof (induction js arbitrary: s)
  case Nil
  then show ?case by simp
next
  case (Cons j js)
  from Cons.prems obtain s1 where c: "cycle ops cfg alg num_updates j s = Some (Inr s1)"
    and r: "run_updates ops cfg alg num_updates js s1 = Some (Inr s')"
    by (auto split: option.splits sum.splits)
  from cycle_Some [OF c] Cons.IH [OF r] show ?case
    by (simp add: algebra_simps)
qed

text \<open>
  Claim C10. Let the run have completed the cycles \<open>1, \<dots>, j - 1\<close> from a state with
  \<open>environment_steps = 0\<close> (as \<open>main\<close> starts), and let cycle \<open>j\<close> reach its log point
  and log. Then the progress line prints \<open>(j + 1) * num_envs * num_steps\<close> as the number
  of time steps, the metrics sink receives \<open>environment_steps = j * num_envs * num_steps\<close>,
  and the two differ by \<open>num_envs * num_steps\<close>, the steps of one cycle.
\<close>

theorem step_counts:
  assumes "1 \<le> j"
      and "environment_steps s0 = 0"
      and "run_updates ops cfg alg num_updates [1..j - 1] s0 = Some (Inr s)"
      and "train_phase ops cfg alg j s = Inr s1"
      and "log_phase cfg alg j s1 = Inr s2"
      and "j mod log_interval cfg = 0" and "1 < length (all_infos s1)"
  shows "environment_steps s1 = j * int (num_envs alg) * int (num_steps alg) \<and>
         (\<exists>r m. drop (length (trace s1)) (trace s2) =
                  [LogUpdates j ((j + 1) * int (num_envs alg) * int (num_steps alg)),
                   LogReward (length (all_infos s1)) r,
                   WandbLog m] \<and>
                m ''environment_steps'' =
                  Some (real_of_int (j * int (num_envs alg) * int (num_steps alg)))) \<and>
         (j + 1) * int (num_envs alg) * int (num_steps alg) - environment_steps s1 =
           int (num_envs alg) * int (num_steps alg)"
proof -
  from assms(1) have len: "int (length [1..j - 1]) = j - 1" by simp
  from run_updates_Some [OF assms(3)] assms(2) len
  have "environment_steps s = (j - 1) * (int (num_steps alg) * int (num_envs alg))"
    by simp
  with train_phase_Inr [OF assms(4)]
  have es: "environment_steps s1 = j * int (num_envs alg) * int (num_steps alg)"
    by (simp add: algebra_simps)
  from assms(5-7) obtain r where
    r: "squash_info (all_infos s1) ''episode_reward'' = Some r"
    and s2: "s2 = s1\<lparr>trace := trace s1 @
                [LogUpdates j ((j + 1) * int (num_envs alg) * int (num_steps alg)),
                 LogReward (length (all_infos s1)) r,
                 WandbLog ((squash_info (all_infos s1))
                    (''environment_steps'' \<mapsto> real_of_int (environment_steps s1)))],
              all_infos := []\<rparr>"
    by (auto simp: log_phase_eq split: if_splits option.splits)
  have "drop (length (trace s1)) (trace s2) =
                  [LogUpdates j ((j + 1) * int (num_envs alg) * int (num_steps alg)),
                   LogReward (length (all_infos s1)) r,
                   WandbLog ((squash_info (all_infos s1))
                    (''environment_steps'' \<mapsto> real_of_int (environment_steps s1)))]"
    by (simp add: s2)
  moreover have "((squash_info (all_infos s1))
                    (''environment_steps'' \<mapsto> real_of_int (environment_steps s1))) ''environment_steps'' =
                  Some (real_of_int (j * int (num_envs alg) * int (num_steps alg)))"
    by (simp add: es)
  ultimately have ex: "\<exists>r m. drop (length (trace s1)) (trace s2) =
                  [LogUpdates j ((j + 1) * int (num_envs alg) * int (num_steps alg)),
                   LogReward (length (all_infos s1)) r,
                   WandbLog m] \<and>
                m ''environment_steps'' =
                  Some (real_of_int (j * int (num_envs alg) * int (num_steps alg)))"
    by blast
  have diff: "(j + 1) * int (num_envs alg) * int (num_steps alg) - environment_steps s1 =
           int (num_envs alg) * int (num_steps alg)"
    by (simp add: es algebra_simps)
  from es ex diff show ?thesis by (intro conjI)
qed
lemmas toy_train_defs =
  train_phase_def rollout_def rollout_step_def toy_ops_def toy_alg_def act_outputs_def Let_def
  insert_agent_def index_def numeral_2_eq_2 deque_append_def toy_infos_def
  compute_returns_all_def compute_returns_agent_def update_all_def update_in_order_def
  update_agent_def after_update_all_def after_update_agent_def

lemma toy_train_from:
  "\<exists>s1. train_phase toy_ops toy_cfg toy_alg j
           \<lparr>envs = e, agents = [\<lparr>agent_id = 0, model = m0, storage = []\<rparr>,
                                 \<lparr>agent_id = 1, model = m1, storage = []\<rparr>],
            all_infos = [], environment_steps = n, trace = tr\<rparr> = Inr s1 \<and>
         envs s1 = Suc (Suc e) \<and>
         agents s1 = [\<lparr>agent_id = 0, model = m0 + 1, storage = []\<rparr>,
                      \<lparr>agent_id = 1, model = m1 + 1, storage = []\<rparr>] \<and>
         all_infos s1 = [toy_infos ! 0, toy_infos ! 1, toy_infos ! 0, toy_infos ! 1] \<and>
         environment_steps s1 = n + 6"
  by (simp add: toy_train_defs)

lemma toy_cycle1:
  "\<exists>tr. cycle toy_ops toy_cfg toy_alg 5 1 toy_state =
     Some (Inr \<lparr>envs = 2, agents = [\<lparr>agent_id = 0, model = 1, storage = []\<rparr>,
                                     \<lparr>agent_id = 1, model = 2, storage = []\<rparr>],
                all_infos = [], environment_steps = 6, trace = tr\<rparr>)"
proof -
  from toy_train_from [of 1 0 0 1 0 "[]"] obtain s1 where
    t: "train_phase toy_ops toy_cfg toy_alg 1 toy_state = Inr s1"
    and s1: "envs s1 = 2" "agents s1 = [\<lparr>agent_id = 0, model = 1, storage = []\<rparr>,
                      \<lparr>agent_id = 1, model = 2, storage = []\<rparr>]"
      "all_infos s1 = [toy_infos ! 0, toy_infos ! 1, toy_infos ! 0, toy_infos ! 1]"
      "environment_steps s1 = 6"
    by (auto simp: toy_state_def toy_agents_def)
  have sq: "squash_info (all_infos s1) ''episode_reward'' = Some (11 / 2)"
    unfolding s1(3) by (rule squash_toy_eval)
  define s2 where "s2 = s1\<lparr>trace := trace s1 @
        [LogUpdates 1 ((1 + 1) * int (num_envs toy_alg) * int (num_steps toy_alg)),
         LogReward (length (all_infos s1)) (11 / 2),
         WandbLog ((squash_info (all_infos s1))
            (''environment_steps'' \<mapsto> real_of_int (environment_steps s1)))],
        all_infos := []\<rparr>"
  have l: "log_phase toy_cfg toy_alg 1 s1 = Inr s2"
    by (simp add: log_phase_eq sq s2_def) (simp add: toy_cfg_def s1(3))
  have c: "save_phase toy_ops toy_cfg 5 1 s2 = Inr s2"
    by (simp add: save_phase_def cadence_due_def toy_cfg_def)
  have e: "eval_phase toy_ops toy_cfg 5 1 s2 = Some (Inr s2)"
    by (simp add: eval_phase_def cadence_due_def toy_cfg_def)
  have "cycle toy_ops toy_cfg toy_alg 5 1 toy_state = Some (Inr s2)"
    by (simp add: cycle_def t l c e)
  moreover have "s2 = \<lparr>envs = 2, agents = [\<lparr>agent_id = 0, model = 1, storage = []\<rparr>,
                                     \<lparr>agent_id = 1, model = 2, storage = []\<rparr>],
                all_infos = [], environment_steps = 6, trace = trace s2\<rparr>"
    using s1 by (simp add: s2_def)
  ultimately show ?thesis by metis
qed

theorem step_counts_witness:
  "\<exists>s s1 s2. run_updates toy_ops toy_cfg toy_alg 5 [1..2 - 1] toy_state = Some (Inr s) \<and>
      train_phase toy_ops toy_cfg toy_alg 2 s = Inr s1 \<and>
      log_phase toy_cfg toy_alg 2 s1 = Inr s2 \<and>
      environment_steps s1 = 12 \<and>
      take 1 (drop (length (trace s1)) (trace s2)) = [LogUpdates 2 18]"
proof -
  from toy_cycle1 obtain tr where
    c: "cycle toy_ops toy_cfg toy_alg 5 1 toy_state =
     Some (Inr \<lparr>envs = 2, agents = [\<lparr>agent_id = 0, model = 1, storage = []\<rparr>,
                                     \<lparr>agent_id = 1, model = 2, storage = []\<rparr>],
                all_infos = [], environment_steps = 6, trace = tr\<rparr>)"
    by blast
  let ?s = "\<lparr>envs = 2, agents = [\<lparr>agent_id = 0, model = 1, storage = []\<rparr>,
                                     \<lparr>agent_id = 1, model = 2, storage = []\<rparr>],
                all_infos = [], environment_steps = 6, trace = tr\<rparr>"
  have r: "run_updates toy_ops toy_cfg toy_alg 5 [1..2 - 1] toy_state = Some (Inr ?s)"
    by (simp add: c upto.simps)
  from toy_train_from [of 2 2 1 2 6 tr] obtain s1 where
    t: "train_phase toy_ops toy_cfg toy_alg 2 ?s = Inr s1"
    and s1: "all_infos s1 = [toy_infos ! 0, toy_infos ! 1, toy_infos ! 0, toy_infos ! 1]"
    by blast
  have sq: "squash_info (all_infos s1) ''episode_reward'' = Some (11 / 2)"
    unfolding s1 by (rule squash_toy_eval)
  have due: "2 mod log_interval toy_cfg = 0" and win: "1 < length (all_infos s1)"
    by (simp_all add: toy_cfg_def s1)
  obtain s2 where l: "log_phase toy_cfg toy_alg 2 s1 = Inr s2"
    using win by (simp add: log_phase_eq sq toy_cfg_def)
  have j: "(1::int) \<le> 2" by simp
  have z: "environment_steps toy_state = 0" by (simp add: toy_state_def)
  from step_counts [OF j z r t l due win] obtain rw m where
    es: "environment_steps s1 = 2 * int (num_envs toy_alg) * int (num_steps toy_alg)"
    and ev: "drop (length (trace s1)) (trace s2) =
                  [LogUpdates 2 ((2 + 1) * int (num_envs toy_alg) * int (num_steps toy_alg)),
                   LogReward (length (all_infos s1)) rw,
                   WandbLog m]"
    by blast
  from es have "environment_steps s1 = 12" by (simp add: toy_alg_def)
  moreover from ev have "take 1 (drop (length (trace s1)) (trace s2)) = [LogUpdates 2 18]"
    by (simp add: toy_alg_def)
  ultimately show ?thesis using r t l by blast
qed

section \<open>The run of \<open>main\<close>\<close>

text \<open>
  The hypotheses of the theorems about one cycle hold in \<open>main\<close>: it starts its loop
  with \<open>environment_steps = 0\<close>, an empty info window and agents numbered by position,
  and cycle \<open>j\<close> starts in the state that the cycles \<open>1, \<dots>, j - 1\<close> have left.
\<close>

lemma init_agents_ids:
  "map agent_id (init_agents ops e) = [0..<length (init_agents ops e)]"
  by (simp add: init_agents_def comp_def)

lemma seed_agent_ids:
  assumes "seed_agent ops obs i ags = Inr ags'"
  shows "map agent_id ags' = map agent_id ags"
proof -
  from assms have i: "i < length ags"
    and eq: "ags' = ags[i := (ags ! i)\<lparr>storage := st_seed ops (storage (ags ! i)) (obs ! i)\<rparr>]"
    by (auto simp: seed_agent_def index_def split: if_splits)
  show ?thesis
    unfolding eq
  proof (rule nth_equalityI)
    show "length (map agent_id (ags[i := (ags ! i)\<lparr>storage := st_seed ops (storage (ags ! i)) (obs ! i)\<rparr>])) =
          length (map agent_id ags)" by simp
  next
    fix k assume "k < length (map agent_id (ags[i := (ags ! i)\<lparr>storage := st_seed ops (storage (ags ! i)) (obs ! i)\<rparr>]))"
    then have "k < length ags" by simp
    then show "map agent_id (ags[i := (ags ! i)\<lparr>storage := st_seed ops (storage (ags ! i)) (obs ! i)\<rparr>]) ! k =
          map agent_id ags ! k"
      by (cases "i = k") simp_all
  qed
qed

lemma seed_loop_ids:
  "for_each (seed_agent ops obs) is ags = Inr ags' \<Longrightarrow> map agent_id ags' = map agent_id ags"
proof (induction "is" arbitrary: ags)
  case Nil
  then show ?case by simp
next
  case (Cons i "is")
  from Cons.prems obtain ags1 where a: "seed_agent ops obs i ags = Inr ags1"
    and b: "for_each (seed_agent ops obs) is ags1 = Inr ags'"
    by (auto split: sum.splits)
  from Cons.IH [OF b] seed_agent_ids [OF a] show ?case by simp
qed

lemma run_updates_append:
  "run_updates ops cfg alg num_updates (js @ ks) s = Some (Inr s') \<Longrightarrow>
     \<exists>s1. run_updates ops cfg alg num_updates js s = Some (Inr s1) \<and>
          run_updates ops cfg alg num_updates ks s1 = Some (Inr s')"
proof (induction js arbitrary: s)
  case Nil
  then show ?case by simp
next
  case (Cons j js)
  from Cons.prems obtain s0 where c: "cycle ops cfg alg num_updates j s = Some (Inr s0)"
    and r: "run_updates ops cfg alg num_updates (js @ ks) s0 = Some (Inr s')"
    by (auto split: option.splits sum.splits)
  from Cons.IH [OF r] c show ?case by simp
qed

lemma main_Some:
  assumes "main ops cfg alg = Some (Inr s')"
  shows "\<exists>s0 s. environment_steps s0 = 0 \<and> all_infos s0 = [] \<and>
           map agent_id (agents s0) = [0..<length (agents s0)] \<and>
           trace s0 = [MakeVecEnvs Envs (num_envs alg) None, EnvReset Envs] \<and>
           run_updates ops cfg alg (num_env_steps cfg div int (num_steps alg) div int (num_envs alg))
             [1..num_env_steps cfg div int (num_steps alg) div int (num_envs alg)] s0 = Some (Inr s) \<and>
           s' = s\<lparr>trace := trace s @ [EnvClose Envs]\<rparr>"
proof -
  let ?e0 = "make_vec_envs ops (num_envs alg) None"
  let ?nu = "num_env_steps cfg div int (num_steps alg) div int (num_envs alg)"
  obtain envs1 obs where rs: "env_reset ops ?e0 = (envs1, obs)"
    by (cases "env_reset ops ?e0")
  from assms rs obtain ags where
    seed: "for_each (seed_agent ops obs) [0..<length obs] (init_agents ops ?e0) = Inr ags"
    by (auto simp: main_def Let_def split: sum.splits)
  let ?s0 = "\<lparr>envs = envs1, agents = ags, all_infos = [], environment_steps = 0,
              trace = [MakeVecEnvs Envs (num_envs alg) None, EnvReset Envs]\<rparr>"
  from assms rs seed obtain s where
    run: "run_updates ops cfg alg ?nu [1..?nu] ?s0 = Some (Inr s)"
    and s': "s' = s\<lparr>trace := trace s @ [EnvClose Envs]\<rparr>"
    by (auto simp: main_def Let_def split: if_splits option.splits sum.splits)
  from seed_loop_ids [OF seed] init_agents_ids [of ops ?e0]
  have "map agent_id ags = [0..<length ags]"
    by (metis length_map)
  with run s' show ?thesis
    by (intro exI [of _ ?s0] exI [of _ s]) simp
qed

lemma main_cycle_start:
  assumes "main ops cfg alg = Some (Inr s')"
      and "1 \<le> j"
      and "j \<le> num_env_steps cfg div int (num_steps alg) div int (num_envs alg)"
  shows "\<exists>s0 s s1.
           environment_steps s0 = 0 \<and>
           run_updates ops cfg alg (num_env_steps cfg div int (num_steps alg) div int (num_envs alg))
             [1..j - 1] s0 = Some (Inr s) \<and>
           map agent_id (agents s) = [0..<length (agents s)] \<and>
           cycle ops cfg alg (num_env_steps cfg div int (num_steps alg) div int (num_envs alg)) j s
             = Some (Inr s1)"
proof -
  let ?nu = "num_env_steps cfg div int (num_steps alg) div int (num_envs alg)"
  from main_Some [OF assms(1)] obtain s0 sn where
    z: "environment_steps s0 = 0" and ids: "map agent_id (agents s0) = [0..<length (agents s0)]"
    and run: "run_updates ops cfg alg ?nu [1..?nu] s0 = Some (Inr sn)"
    by blast
  from assms(2,3) have split: "[1..?nu] = [1..j - 1] @ (j # [j + 1..?nu])"
    by (metis upto_rec1 upto_split1)
  from run_updates_append [OF run [unfolded split]] obtain s where
    a: "run_updates ops cfg alg ?nu [1..j - 1] s0 = Some (Inr s)"
    and b: "run_updates ops cfg alg ?nu (j # [j + 1..?nu]) s = Some (Inr sn)"
    by blast
  from b obtain s1 where c: "cycle ops cfg alg ?nu j s = Some (Inr s1)"
    by (auto split: option.splits sum.splits)
  from run_updates_Some [OF a] ids have "map agent_id (agents s) = [0..<length (agents s)]"
    by (metis length_map)
  with z a c show ?thesis by blast
qed

end
